theory Spec2Isabelle
  imports Main "HOL-Library.AList" "HOL-Library.List_Lexorder" "HOL-Library.Char_ord"
begin

section \<open>neartalk: chat rooms keyed by network address\<close>

text \<open>
  A shallow embedding of the Go program: the message rendering of the web UI file
  (\<open>sanitizeNick\<close>, \<open>renderMsgText\<close>, \<open>createChatMsg\<close>, \<open>handleMsg\<close>), the
  rooms and clients of the server file (\<open>chatRoom\<close>, \<open>client\<close>, \<open>chatServer\<close>,
  \<open>getIPString\<close>), the nickname generator (\<open>genNick\<close>) and the admin data handler.

  Go strings are byte sequences, here \<open>string\<close> (a list of 8-bit characters).
  Pointers to clients and rooms are addresses into explicit stores. A channel is the
  list of values it holds, with its capacity checked where the code sends. A panic and
  a send that cannot complete are error values.
\<close>

subsection \<open>Errors, time, addresses\<close>

datatype error =
  Panic    \<comment> \<open>a run-time panic (nil dereference, \<open>rand.Intn\<close> of 0)\<close>
| Blocked  \<comment> \<open>a send on a full channel: the call does not complete in this state\<close>

text \<open>\<open>time.Time\<close> as seconds since the Unix epoch; the zero \<open>time.Time\<close> is
  January 1, year 1, 00:00:00 UTC.\<close>

type_synonym time = int

definition zeroTime :: time where
  "zeroTime = - 62135596800"

type_synonym cid = nat  \<comment> \<open>a \<open>*client\<close>\<close>

type_synonym rid = nat  \<comment> \<open>a \<open>*chatRoom\<close>\<close>

subsection \<open>Functions of the standard library, written out\<close>

text \<open>\<open>strings.HasPrefix\<close> and \<open>strings.HasSuffix\<close>.\<close>

definition strings_HasPrefix :: "string \<Rightarrow> string \<Rightarrow> bool" where
  "strings_HasPrefix s p \<longleftrightarrow> length s \<ge> length p \<and> take (length p) s = p"

definition strings_HasSuffix :: "string \<Rightarrow> string \<Rightarrow> bool" where
  "strings_HasSuffix s p \<longleftrightarrow>
     length s \<ge> length p \<and> drop (length s - length p) s = p"

text \<open>\<open>strings.Split(s, sep)\<close> for a separator that is not empty (the only call
  passes \<open>", "\<close>): the pieces of \<open>s\<close> between the occurrences of \<open>sep\<close>, found from
  the left. \<open>cur\<close> holds the piece read so far. (With an empty separator Go splits
  after each UTF-8 sequence; that case is not modelled and no call uses it.)\<close>

function strings_Split_from :: "string \<Rightarrow> string \<Rightarrow> string \<Rightarrow> string list" where
  "strings_Split_from sep cur [] = [cur]"
| "strings_Split_from sep cur (c # s) =
     (if sep \<noteq> [] \<and> strings_HasPrefix (c # s) sep
      then cur # strings_Split_from sep [] (drop (length sep) (c # s))
      else strings_Split_from sep (cur @ [c]) s)"
  by pat_completeness auto
termination
  by (relation "measure (\<lambda>(sep, cur, s). length s)") auto

definition strings_Split :: "string \<Rightarrow> string \<Rightarrow> string list" where
  "strings_Split s sep = strings_Split_from sep [] s"

text \<open>\<open>strings.ReplaceAll(s, old, new)\<close> for an \<open>old\<close> that is not empty: the
  occurrences of \<open>old\<close>, found from the left and not overlapping, become \<open>new\<close>.\<close>

function strings_ReplaceAll :: "string \<Rightarrow> string \<Rightarrow> string \<Rightarrow> string" where
  "strings_ReplaceAll [] old new = []"
| "strings_ReplaceAll (c # s) old new =
     (if old \<noteq> [] \<and> strings_HasPrefix (c # s) old
      then new @ strings_ReplaceAll (drop (length old) (c # s)) old new
      else c # strings_ReplaceAll s old new)"
  by pat_completeness auto
termination
  by (relation "measure (\<lambda>(s, old, new). length s)") auto

text \<open>\<open>html.EscapeString\<close>: the five characters \<open>& ' < > "\<close> become entities.\<close>

definition escapeChar :: "char \<Rightarrow> string" where
  \<open>escapeChar c =
     (if c = CHR ''&'' then ''&amp;''
      else if c = CHR 0x27 then ''&#39;''
      else if c = CHR ''<'' then ''&lt;''
      else if c = CHR ''>'' then ''&gt;''
      else if c = CHR 0x22 then ''&#34;''
      else [c])\<close>

definition html_EscapeString :: "string \<Rightarrow> string" where
  "html_EscapeString s = concat (map escapeChar s)"

text \<open>The verb \<open>%d\<close> of \<open>fmt.Sprintf\<close> on a number that is not negative: its
  decimal digits, most significant first.\<close>

definition digit :: "nat \<Rightarrow> char" where
  "digit d = ''0123456789'' ! d"

fun fmt_d :: "nat \<Rightarrow> string" where
  "fmt_d n = (if n < 10 then [digit n] else fmt_d (n div 10) @ [digit (n mod 10)])"

declare fmt_d.simps [simp del]

subsection \<open>Functions of other packages, taken as parameters\<close>

text \<open>
  The Unicode functions the rendering calls are not code of this repository. Each is
  a field of \<open>textLib\<close>, and every theorem holds for all of them:
  \<^item> \<open>ToValidUTF8 s r\<close> is \<open>strings.ToValidUTF8(s, r)\<close>;
  \<^item> \<open>TrimSpace\<close> is \<open>strings.TrimSpace\<close>;
  \<^item> \<open>NFC\<close> is \<open>norm.NFC.String\<close>;
  \<^item> \<open>Graphemes s\<close> is the sequence of grapheme clusters that
    \<open>uniseg.NewGraphemes(s)\<close> steps through with \<open>Next\<close>;
  \<^item> \<open>urlRe_ReplaceAllStringFunc s f\<close> is \<open>urlRe.ReplaceAllStringFunc(s, f)\<close> for
    the URL pattern \<open>urlRe\<close> of the program;
  \<^item> \<open>Title\<close> is \<open>strings.Title\<close>;
  \<^item> \<open>FormatRFC3339 t\<close> is \<open>t.UTC().Format(time.RFC3339)\<close>.
\<close>

record textLib =
  ToValidUTF8 :: "string \<Rightarrow> string \<Rightarrow> string"
  TrimSpace :: "string \<Rightarrow> string"
  NFC :: "string \<Rightarrow> string"
  Graphemes :: "string \<Rightarrow> string list"
  urlRe_ReplaceAllStringFunc :: "string \<Rightarrow> (string \<Rightarrow> string) \<Rightarrow> string"
  Title :: "string \<Rightarrow> string"
  FormatRFC3339 :: "time \<Rightarrow> string"

text \<open>The tables \<open>data.Adjectives\<close> and \<open>data.Animals\<close> of the package \<open>data\<close>.\<close>

record data =
  Adjectives :: "string list"
  Animals :: "string list"

subsection \<open>Messages and their rendering\<close>

definition maxNickLen :: nat where
  "maxNickLen = 30"

definition maxMsgTextLen :: nat where
  "maxMsgTextLen = 512"

text \<open>The replacement character U+FFFD in UTF-8.\<close>

definition uFFFD :: string where
  "uFFFD = [CHR 0xEF, CHR 0xBF, CHR 0xBD]"

definition clearInputFieldMsg :: string where
  \<open>clearInputFieldMsg = ''<input name="message" id="message-input" type="text" />''\<close>

record msg =
  msg_nick :: string
  msg_text :: string
  msg_author :: "cid option"  \<comment> \<open>\<open>None\<close> is the nil author of a server message\<close>
  msg_when :: time
  msg_raw :: string

text \<open>The loop \<open>for g.Next() && i < max { b.Write(g.Bytes()); i++ }\<close> of
  \<open>sanitizeNick\<close> and \<open>renderMsgText\<close>, over the clusters still to come.\<close>

fun truncLoop :: "nat \<Rightarrow> string list \<Rightarrow> nat \<Rightarrow> string \<Rightarrow> string" where
  "truncLoop mx [] i b = b"
| "truncLoop mx (g # gs) i b = (if i < mx then truncLoop mx gs (i + 1) (b @ g) else b)"

definition sanitizeNick :: "textLib \<Rightarrow> string \<Rightarrow> string" where
  "sanitizeNick L nick0 =
     (let nick1 = ToValidUTF8 L nick0 uFFFD;
          nick2 = TrimSpace L nick1;
          nick3 = NFC L nick2;
          nick4 = truncLoop maxNickLen (Graphemes L nick3) 0 []
      in html_EscapeString nick4)"

definition linkOf :: "string \<Rightarrow> string" where
  \<open>linkOf urlText =
     ''<a href="'' @ urlText @ ''" target="_blank" rel="noopener noreferrer">'' @ urlText
       @ ''</a>''\<close>

definition renderMsgText :: "textLib \<Rightarrow> string \<Rightarrow> string" where
  "renderMsgText L text0 =
     (let text1 = ToValidUTF8 L text0 uFFFD;
          text2 = TrimSpace L text1;
          text3 = truncLoop maxMsgTextLen (Graphemes L text2) 0 [];
          text4 = html_EscapeString text3
      in urlRe_ReplaceAllStringFunc L text4 linkOf)"

definition isMsgTextValid :: "string \<Rightarrow> bool" where
  "isMsgTextValid s \<longleftrightarrow> s \<noteq> []"

text \<open>The raw string literals of the templates hold a line feed and tabs.\<close>

definition nl3 :: string where
  "nl3 = [CHR 0x0A, CHR 0x09, CHR 0x09, CHR 0x09]"

definition nl2 :: string where
  "nl2 = [CHR 0x0A, CHR 0x09, CHR 0x09]"

definition tbodyOpen :: string where
  \<open>tbodyOpen = ''<tbody id="message-table-tbody" hx-swap-oob="beforeend">'' @ nl3\<close>

definition tbodyClose :: string where
  "tbodyClose = nl2 @ ''</tbody>''"

definition createChatMsg :: "textLib \<Rightarrow> msg \<Rightarrow> string \<times> string" where
  \<open>createChatMsg L m =
     (let sanitizedMsgText = renderMsgText L (msg_text m) in
      if \<not> isMsgTextValid sanitizedMsgText then ([], [])
      else
        let ts = FormatRFC3339 L (msg_when m);
            author = tbodyOpen @ ''<tr><td>'' @ ts @ ''</td><td class="my-nick">''
              @ msg_nick m @ ''</td><td class="my-msg">'' @ sanitizedMsgText
              @ ''</td></tr>'' @ tbodyClose;
            nonAuthor = tbodyOpen @ ''<tr><td>'' @ ts @ ''</td><td>'' @ msg_nick m
              @ ''</td><td>'' @ sanitizedMsgText @ ''</td></tr>'' @ tbodyClose
        in (author, nonAuthor))\<close>

text \<open>\<open>createUserListMsg\<close>: its loop writes one paragraph for each nickname.\<close>

fun userListLoop :: "string list \<Rightarrow> string \<Rightarrow> string" where
  "userListLoop [] b = b"
| "userListLoop (n # ns) b = userListLoop ns (b @ ''<p>'' @ n @ ''</p>'')"

definition createUserListMsg :: "string list \<Rightarrow> string" where
  \<open>createUserListMsg nks =
     userListLoop nks ''<div id="users-list">'' @ ''</div>''
       @ ''<p id="users-header-p" class="bold">Users ('' @ fmt_d (length nks) @ '')</p>''\<close>

text \<open>\<open>createSpecialMsg\<close> reads the clock for a notification: \<open>now\<close> is that
  reading.\<close>

definition createSpecialMsg :: "textLib \<Rightarrow> time \<Rightarrow> string \<Rightarrow> string \<Rightarrow> string" where
  \<open>createSpecialMsg L now txt class =
     (let ts = (if class = ''notif'' then FormatRFC3339 L now else [])
      in tbodyOpen @ ''<tr class="special-msg"><td>'' @ ts @ ''</td><td></td><td class="''
           @ class @ ''">'' @ html_EscapeString txt @ ''</td></tr>'' @ tbodyClose)\<close>

subsection \<open>Clients\<close>

definition clientMsgBuffer :: nat where
  "clientMsgBuffer = 16"

definition serverMsgBuffer :: nat where
  "serverMsgBuffer = 20"

text \<open>A client: \<open>outgoing\<close> is the channel of capacity \<open>clientMsgBuffer\<close> that
  \<open>connect\<close> makes, \<open>closeSlowCalls\<close> counts the goroutines started to run
  \<open>closeSlow\<close>.\<close>

record client =
  nick :: string
  outgoing :: "string list"
  closeSlowCalls :: nat

text \<open>\<open>sendText\<close>: a \<open>select\<close> with a \<open>default\<close> case, so the send happens only
  when the channel has room.\<close>

definition sendText :: "string \<Rightarrow> client \<Rightarrow> client" where
  "sendText s c =
     (if length (outgoing c) < clientMsgBuffer
      then c\<lparr>outgoing := outgoing c @ [s]\<rparr>
      else c\<lparr>closeSlowCalls := closeSlowCalls c + 1\<rparr>)"

subsection \<open>Rooms\<close>

text \<open>A room: \<open>incoming\<close> is the channel of capacity \<open>serverMsgBuffer\<close>, \<open>quit\<close>
  counts the values handed over on the unbuffered channel \<open>quit\<close> (the goroutine of
  the room returns when it receives one), \<open>clients\<close> lists the keys of the map
  \<open>clients\<close> in the order an iteration visits them. The rate limiter and the mutex
  are not modelled: each function below runs from start to end on its own.\<close>

record chatRoom =
  incoming :: "msg list"
  quit :: nat
  whenLastMsg :: time
  clients :: "cid list"

definition newChatRoom :: chatRoom where
  "newChatRoom = \<lparr>incoming = [], quit = 0, whenLastMsg = zeroTime, clients = []\<rparr>"

definition numClients :: "chatRoom \<Rightarrow> nat" where
  "numClients cr = length (clients cr)"

fun nickInUseLoop :: "(cid \<Rightarrow> client) \<Rightarrow> cid list \<Rightarrow> string \<Rightarrow> bool" where
  "nickInUseLoop h [] n = False"
| "nickInUseLoop h (c # cs) n = (if n = nick (h c) then True else nickInUseLoop h cs n)"

definition nickInUse :: "(cid \<Rightarrow> client) \<Rightarrow> chatRoom \<Rightarrow> string \<Rightarrow> bool" where
  "nickInUse h cr n = nickInUseLoop h (clients cr) n"

definition nicks :: "(cid \<Rightarrow> client) \<Rightarrow> chatRoom \<Rightarrow> string list" where
  "nicks h cr = sort (map (\<lambda>c. nick (h c)) (clients cr))"

lemma nickInUseLoop_iff: "nickInUseLoop h cs n \<longleftrightarrow> n \<in> (\<lambda>c. nick (h c)) ` set cs"
  by (induction cs) auto

lemma nickInUse_iff: "nickInUse h cr n \<longleftrightarrow> n \<in> (\<lambda>c. nick (h c)) ` set (clients cr)"
  by (simp add: nickInUse_def nickInUseLoop_iff)

subsection \<open>Decimal numbers are told apart by their digits\<close>

lemma digit_inj: "a < 10 \<Longrightarrow> b < 10 \<Longrightarrow> digit a = digit b \<Longrightarrow> a = b"
proof -
  assume a: "a < 10" and b: "b < 10" and e: "digit a = digit b"
  have d: "distinct ''0123456789''" by simp
  have "length ''0123456789'' = 10" by simp
  with a b e d show "a = b"
    unfolding digit_def by (metis nth_eq_iff_index_eq)
qed

lemma fmt_d_nonempty: "fmt_d n \<noteq> []"
  by (subst fmt_d.simps) simp

lemma fmt_d_inj: "fmt_d n = fmt_d m \<Longrightarrow> n = m"
proof (induction n arbitrary: m rule: fmt_d.induct)
  case (1 n)
  show ?case
  proof (cases "n < 10")
    case True
    then have n1: "fmt_d n = [digit n]" by (subst fmt_d.simps) simp
    show ?thesis
    proof (cases "m < 10")
      case True
      then have "fmt_d m = [digit m]" by (subst fmt_d.simps) simp
      with n1 "1.prems" have "digit n = digit m" by simp
      with \<open>n < 10\<close> \<open>m < 10\<close> show ?thesis by (rule digit_inj)
    next
      case False
      then have "fmt_d m = fmt_d (m div 10) @ [digit (m mod 10)]" by (subst fmt_d.simps) simp
      with n1 "1.prems" have "fmt_d (m div 10) = []" by simp
      then show ?thesis by (simp add: fmt_d_nonempty)
    qed
  next
    case False
    then have n2: "fmt_d n = fmt_d (n div 10) @ [digit (n mod 10)]" by (subst fmt_d.simps) simp
    show ?thesis
    proof (cases "m < 10")
      case True
      then have "fmt_d m = [digit m]" by (subst fmt_d.simps) simp
      with n2 "1.prems" have "fmt_d (n div 10) = []" by simp
      then show ?thesis by (simp add: fmt_d_nonempty)
    next
      case m: False
      then have "fmt_d m = fmt_d (m div 10) @ [digit (m mod 10)]" by (subst fmt_d.simps) simp
      with n2 "1.prems" have e1: "fmt_d (n div 10) = fmt_d (m div 10)"
        and e2: "digit (n mod 10) = digit (m mod 10)" by simp_all
      from "1.IH" [OF False e1] have d: "n div 10 = m div 10" .
      have "n mod 10 = m mod 10" using e2 by (intro digit_inj) simp_all
      with d show ?thesis by (metis div_mult_mod_eq)
    qed
  qed
qed

lemma suffixed_inj: "inj (\<lambda>j. og @ fmt_d j)"
  by (rule injI) (simp add: fmt_d_inj)

lemma used_suffixes_finite: "finite {j. nickInUse h cr (og @ fmt_d j)}"
proof -
  have "{j. nickInUse h cr (og @ fmt_d j)} =
          (\<lambda>j. og @ fmt_d j) -` ((\<lambda>c. nick (h c)) ` set (clients cr))"
    by (auto simp: nickInUse_iff)
  then show ?thesis
    by (simp add: finite_vimageI suffixed_inj)
qed

lemma used_suffixes_step:
  "card {j. Suc i \<le> j \<and> nickInUse h cr (og @ fmt_d j)}
     + (if nickInUse h cr (og @ fmt_d i) then 1 else 0)
   = card {j. i \<le> j \<and> nickInUse h cr (og @ fmt_d j)}"
proof -
  let ?P = "\<lambda>j. nickInUse h cr (og @ fmt_d j)"
  have fin: "finite {j. Suc i \<le> j \<and> ?P j}"
    by (rule finite_subset [OF _ used_suffixes_finite [of h cr og]]) auto
  show ?thesis
  proof (cases "?P i")
    case True
    then have "{j. i \<le> j \<and> ?P j} = insert i {j. Suc i \<le> j \<and> ?P j}"
      by (auto simp: le_Suc_eq)
    then show ?thesis using True fin by simp
  next
    case False
    then have "{j. i \<le> j \<and> ?P j} = {j. Suc i \<le> j \<and> ?P j}"
      by (metis Suc_leD Suc_leI le_neq_implies_less)
    then show ?thesis using False by simp
  qed
qed

subsection \<open>Nicknames of a room\<close>

text \<open>\<open>rand.Intn(n)\<close> panics when \<open>n\<close> is 0 and returns a number below \<open>n\<close>
  otherwise; \<open>r\<close> is the number the process-wide source draws.\<close>

definition rand_Intn :: "nat \<Rightarrow> nat \<Rightarrow> error + nat" where
  "rand_Intn r n = (if n = 0 then Inl Panic else Inr (r mod n))"

definition genNick :: "textLib \<Rightarrow> data \<Rightarrow> nat \<Rightarrow> nat \<Rightarrow> error + string" where
  "genNick L D r1 r2 =
     (case rand_Intn r1 (length (Adjectives D)) of
        Inl e \<Rightarrow> Inl e
      | Inr a \<Rightarrow>
          (case rand_Intn r2 (length (Animals D)) of
             Inl e \<Rightarrow> Inl e
           | Inr b \<Rightarrow>
               Inr (strings_ReplaceAll
                     (Title L (Adjectives D ! a @ '' '' @ Animals D ! b)) '' '' [])))"

text \<open>The loop of \<open>getNewNick\<close>: \<open>for cr.nickInUse(nick) { nick = ogNick + i; i++ }\<close>.
  The counter \<open>i\<close> is a Go \<open>int\<close>, here a natural number: it never passes the number
  of members plus 3 (lemma \<open>used_suffixes_bound\<close> below), far from the 64-bit range.\<close>

function getNewNickLoop ::
  "(cid \<Rightarrow> client) \<Rightarrow> chatRoom \<Rightarrow> string \<Rightarrow> string \<Rightarrow> nat \<Rightarrow> string" where
  "getNewNickLoop h cr ogNick nk i =
     (if nickInUse h cr nk then getNewNickLoop h cr ogNick (ogNick @ fmt_d i) (i + 1)
      else nk)"
  by pat_completeness auto
termination
proof (relation "measure (\<lambda>(h, cr, og, nk, i).
         card {j. i \<le> j \<and> nickInUse h cr (og @ fmt_d j)}
           + (if nickInUse h cr nk then 1 else 0))", goal_cases)
  case 1
  show ?case by simp
next
  case (2 h cr ogNick nk i)
  then show ?case
    using used_suffixes_step [of i h cr ogNick] by simp
qed

declare getNewNickLoop.simps [simp del]

definition getNewNick ::
  "textLib \<Rightarrow> data \<Rightarrow> nat \<Rightarrow> nat \<Rightarrow> (cid \<Rightarrow> client) \<Rightarrow> chatRoom \<Rightarrow> error + string" where
  "getNewNick L D r1 r2 h cr =
     (case genNick L D r1 r2 of
        Inl e \<Rightarrow> Inl e
      | Inr ogNick \<Rightarrow> Inr (getNewNickLoop h cr ogNick ogNick 2))"

subsection \<open>Messages of the server\<close>

text \<open>\<open>createJoinMsg\<close> and \<open>createLeaveMsg\<close>: a message with only \<open>raw\<close> and
  \<open>when\<close> set. Both read the clock; \<open>now\<close> is that reading.\<close>

definition createJoinMsg :: "textLib \<Rightarrow> time \<Rightarrow> client \<Rightarrow> string list \<Rightarrow> msg" where
  "createJoinMsg L now c nks =
     \<lparr>msg_nick = [], msg_text = [], msg_author = None, msg_when = now,
      msg_raw = createSpecialMsg L now (nick c @ '' has joined'') ''notif''
                  @ createUserListMsg nks\<rparr>"

definition createLeaveMsg :: "textLib \<Rightarrow> time \<Rightarrow> client \<Rightarrow> string list \<Rightarrow> msg" where
  "createLeaveMsg L now c nks =
     \<lparr>msg_nick = [], msg_text = [], msg_author = None, msg_when = now,
      msg_raw = createSpecialMsg L now (nick c @ '' has left'') ''notif''
                  @ createUserListMsg nks\<rparr>"

subsection \<open>Adding and removing the clients of a room\<close>

text \<open>A send on \<open>incoming\<close> completes when the channel holds fewer than
  \<open>serverMsgBuffer\<close> messages.\<close>

definition sendIncoming :: "msg \<Rightarrow> chatRoom \<Rightarrow> error + chatRoom" where
  "sendIncoming m cr =
     (if length (incoming cr) < serverMsgBuffer
      then Inr (cr\<lparr>incoming := incoming cr @ [m]\<rparr>)
      else Inl Blocked)"

text \<open>\<open>chatRoom.addClient\<close>. \<open>cr.clients[c] = struct{}{}\<close> adds the key \<open>c\<close> when
  the map does not hold it.\<close>

definition chatRoom_addClient ::
  "textLib \<Rightarrow> data \<Rightarrow> nat \<Rightarrow> nat \<Rightarrow> time \<Rightarrow> (cid \<Rightarrow> client) \<Rightarrow> chatRoom \<Rightarrow> cid
     \<Rightarrow> error + ((cid \<Rightarrow> client) \<times> chatRoom)" where
  "chatRoom_addClient L D r1 r2 now h cr c =
     (case getNewNick L D r1 r2 h cr of
        Inl e \<Rightarrow> Inl e
      | Inr nk \<Rightarrow>
          (let h1 = h(c := (h c)\<lparr>nick := nk\<rparr>);
               cr1 = cr\<lparr>clients := List.insert c (clients cr)\<rparr>
           in case sendIncoming (createJoinMsg L now (h1 c) (nicks h1 cr1)) cr1 of
                Inl e \<Rightarrow> Inl e
              | Inr cr2 \<Rightarrow> Inr (h1, cr2)))"

text \<open>\<open>chatRoom.removeClient\<close>.\<close>

definition chatRoom_removeClient ::
  "textLib \<Rightarrow> time \<Rightarrow> (cid \<Rightarrow> client) \<Rightarrow> chatRoom \<Rightarrow> cid \<Rightarrow> error + chatRoom" where
  "chatRoom_removeClient L now h cr c =
     (let cr1 = cr\<lparr>clients := removeAll c (clients cr)\<rparr>
      in if length (clients cr1) > 0
         then sendIncoming (createLeaveMsg L now (h c) (nicks h cr1)) cr1
         else Inr cr1)"

subsection \<open>Handling a message\<close>

text \<open>\<open>handleMsg\<close> returns the store of clients, the room and the two strings. A
  message that is not raw and starts with \<open>/nick\<close> calls a method of its author: a nil
  author panics there.\<close>

definition handleMsg ::
  "textLib \<Rightarrow> time \<Rightarrow> (cid \<Rightarrow> client) \<Rightarrow> chatRoom \<Rightarrow> msg
     \<Rightarrow> error + ((cid \<Rightarrow> client) \<times> chatRoom \<times> string \<times> string)" where
  "handleMsg L now h cr m =
     (if msg_raw m \<noteq> [] then Inr (h, cr, msg_raw m, msg_raw m)
      else if strings_HasPrefix (msg_text m) ''/nick ''
              \<and> length (msg_text m) > length ''/nick '' then
        (case msg_author m of
           None \<Rightarrow> Inl Panic
         | Some a \<Rightarrow>
             (let newNick = sanitizeNick L (drop (length ''/nick '') (msg_text m)) in
              if newNick = [] then
                Inr (h(a := sendText
                       (createSpecialMsg L now ''Nickname cannot be empty'' ''error'') (h a)),
                     cr, [], [])
              else if nickInUse h cr newNick then
                Inr (h(a := sendText
                       (createSpecialMsg L now ''That nickname is already in use'' ''error'')
                       (h a)),
                     cr, [], [])
              else
                (let oldNick = nick (h a);
                     h1 = h(a := (h a)\<lparr>nick := newNick\<rparr>);
                     s = createSpecialMsg L now
                           (oldNick @ '' is now known as '' @ newNick) ''notif''
                         @ createUserListMsg (nicks h1 cr)
                 in Inr (h1, cr, s, s))))
      else Inr (h, cr\<lparr>whenLastMsg := msg_when m\<rparr>, createChatMsg L m))"

subsection \<open>The goroutine of a room\<close>

text \<open>The loop over the clients in \<open>start\<close>: the author gets its own copy with the
  instruction that clears the input field.\<close>

fun broadcast ::
  "msg \<Rightarrow> string \<Rightarrow> string \<Rightarrow> cid list \<Rightarrow> (cid \<Rightarrow> client) \<Rightarrow> (cid \<Rightarrow> client)" where
  "broadcast m authorMsg chatMsg [] h = h"
| "broadcast m authorMsg chatMsg (c # cs) h =
     broadcast m authorMsg chatMsg cs
       (h(c := (if msg_author m = Some c
                then sendText (authorMsg @ clearInputFieldMsg) (h c)
                else sendText chatMsg (h c))))"

text \<open>One turn of the loop of \<open>start\<close> that receives \<open>m\<close> from \<open>incoming\<close>.
  \<open>handleMsg\<close> and the loop over the clients each hold the mutex of the room; the
  turn is modelled with no call of another goroutine between the two.\<close>

definition startIter ::
  "textLib \<Rightarrow> time \<Rightarrow> (cid \<Rightarrow> client) \<Rightarrow> chatRoom \<Rightarrow> msg
     \<Rightarrow> error + ((cid \<Rightarrow> client) \<times> chatRoom)" where
  "startIter L now h cr m =
     (case handleMsg L now h cr m of
        Inl e \<Rightarrow> Inl e
      | Inr (h1, cr1, authorMsg, chatMsg) \<Rightarrow>
          if chatMsg = [] then Inr (h1, cr1)
          else Inr (broadcast m authorMsg chatMsg (clients cr1) h1, cr1))"

text \<open>A turn of the loop of \<open>start\<close> that takes the message at the head of
  \<open>incoming\<close>; with nothing there the turn waits.\<close>

definition startTurn ::
  "textLib \<Rightarrow> time \<Rightarrow> (cid \<Rightarrow> client) \<Rightarrow> chatRoom
     \<Rightarrow> error + ((cid \<Rightarrow> client) \<times> chatRoom)" where
  "startTurn L now h cr =
     (case incoming cr of
        [] \<Rightarrow> Inl Blocked
      | m # ms \<Rightarrow> startIter L now h (cr\<lparr>incoming := ms\<rparr>) m)"

subsection \<open>The key of a room: \<open>getIPString\<close>\<close>

text \<open>
  The functions of package \<open>net\<close> are parameters: \<open>SplitHostPort a\<close> is
  \<open>net.SplitHostPort(a)\<close>, with \<open>Inl\<close> the text of its error and \<open>Inr\<close> the host
  and the port; \<open>ParseIP\<close> gives the bytes of the address (none for nil);
  \<open>IsPrivate\<close> and \<open>IsLoopback\<close> are the methods of \<open>net.IP\<close>.
\<close>

record netLib =
  SplitHostPort :: "string \<Rightarrow> string + (string \<times> string)"
  ParseIP :: "string \<Rightarrow> nat list"
  IsPrivate :: "nat list \<Rightarrow> bool"
  IsLoopback :: "nat list \<Rightarrow> bool"

text \<open>Of an \<open>http.Request\<close>: the header (a map from names to lists of values) and
  the address of the peer.\<close>

record request =
  Header :: "string \<rightharpoonup> string list"
  RemoteAddr :: string

text \<open>\<open>Header.Get\<close>: the first value of the name, the empty string when there is
  none.\<close>

definition Header_Get :: "(string \<rightharpoonup> string list) \<Rightarrow> string \<Rightarrow> string" where
  "Header_Get hdr key = (case hdr key of None \<Rightarrow> [] | Some [] \<Rightarrow> [] | Some (v # vs) \<Rightarrow> v)"

text \<open>The lines of \<open>getIPString\<close> after its first \<open>if\<close>: the host of the peer
  address, or \<open>lan\<close> for a private or loopback address. The second component holds
  the lines logged.\<close>

definition peerIPString :: "netLib \<Rightarrow> request \<Rightarrow> string \<times> string list" where
  "peerIPString N r =
     (case SplitHostPort N (RemoteAddr r) of
        Inl err \<Rightarrow>
          (RemoteAddr r,
           [''getIPString: net.SplitHostPort('' @ RemoteAddr r @ ''): '' @ err])
      | Inr (ip, port) \<Rightarrow>
          (let parsed = ParseIP N ip in
           if IsPrivate N parsed \<or> IsLoopback N parsed then (''lan'', []) else (ip, [])))"

definition getIPString :: "netLib \<Rightarrow> request \<Rightarrow> string \<times> string list" where
  "getIPString N r =
     (let xForwardedFor = Header_Get (Header r) ''X-Forwarded-For'';
          forwardedIPs = strings_Split xForwardedFor '', ''
      in if length forwardedIPs > 0
         then (forwardedIPs ! (length forwardedIPs - 1), [])
         else peerIPString N r)"

subsection \<open>The server and its rooms\<close>

text \<open>
  The state of the process: the store of clients, the store of rooms, the next
  address for a room, the map \<open>rooms\<close> of the \<open>chatServer\<close> (an association list
  from keys to addresses of rooms, no key twice) and the lines logged. A call that
  returns an error value ends the run; the state it had reached is not returned.
\<close>

record world =
  clientStore :: "cid \<Rightarrow> client"
  roomStore :: "rid \<Rightarrow> chatRoom"
  freshRoom :: rid
  rooms :: "(string \<times> rid) list"
  logLines :: "string list"

text \<open>A client as \<open>connect\<close> makes it, and a store of such clients.\<close>

definition newClient :: client where
  "newClient = \<lparr>nick = [], outgoing = [], closeSlowCalls = 0\<rparr>"

definition newClients :: "cid \<Rightarrow> client" where
  "newClients = (\<lambda>c. newClient)"

text \<open>\<open>newChatServer\<close>: no rooms.\<close>

definition newChatServer :: world where
  "newChatServer =
     \<lparr>clientStore = newClients, roomStore = (\<lambda>r. newChatRoom), freshRoom = 0, rooms = [],
      logLines = []\<rparr>"

text \<open>\<open>chatServer.addClient\<close> returns the state and the address of the room. Its
  last statement is a send on the queue of the client, which needs room there.\<close>

definition chatServer_addClient ::
  "textLib \<Rightarrow> data \<Rightarrow> nat \<Rightarrow> nat \<Rightarrow> time \<Rightarrow> world \<Rightarrow> string \<Rightarrow> cid \<Rightarrow> error + (world \<times> rid)" where
  \<open>chatServer_addClient L D r1 r2 now w ip c =
     (let (room, w1) =
            (case map_of (rooms w) ip of
               Some r \<Rightarrow> (r, w)
             | None \<Rightarrow>
                 (freshRoom w,
                  w\<lparr>roomStore := (roomStore w)(freshRoom w := newChatRoom),
                    freshRoom := freshRoom w + 1,
                    rooms := AList.update ip (freshRoom w) (rooms w)\<rparr>))
      in case chatRoom_addClient L D r1 r2 now (clientStore w1) (roomStore w1 room) c of
           Inl e \<Rightarrow> Inl e
         | Inr (h1, cr1) \<Rightarrow>
             if length (outgoing (h1 c)) < clientMsgBuffer
             then Inr (w1\<lparr>clientStore :=
                           h1(c := (h1 c)\<lparr>outgoing := outgoing (h1 c)
                                   @ [''<h2 id="ip-addr">'' @ ip @ ''</h2>'']\<rparr>),
                         roomStore := (roomStore w1)(room := cr1)\<rparr>,
                       room)
             else Inl Blocked)\<close>

text \<open>\<open>chatServer.removeClient\<close>. The send on the unbuffered channel \<open>quit\<close>
  completes when the goroutine of the room takes the value.\<close>

definition chatServer_removeClient ::
  "textLib \<Rightarrow> time \<Rightarrow> world \<Rightarrow> string \<Rightarrow> cid \<Rightarrow> error + world" where
  "chatServer_removeClient L now w ip c =
     (case map_of (rooms w) ip of
        None \<Rightarrow>
          Inr (w\<lparr>logLines := logLines w
                 @ [''chatServer.removeClient: Tried to remove client from non-existent room ''
                    @ ip]\<rparr>)
      | Some room \<Rightarrow>
          (case chatRoom_removeClient L now (clientStore w) (roomStore w room) c of
             Inl e \<Rightarrow> Inl e
           | Inr cr1 \<Rightarrow>
               (let w1 = w\<lparr>roomStore := (roomStore w)(room := cr1)\<rparr> in
                if numClients (roomStore w1 room) = 0
                then Inr (w1\<lparr>rooms := AList.delete ip (rooms w1),
                            roomStore := (roomStore w1)
                              (room := (roomStore w1 room)\<lparr>quit := quit (roomStore w1 room) + 1\<rparr>)\<rparr>)
                else Inr w1)))"

subsection \<open>The admin data\<close>

text \<open>\<open>QueryEscape\<close> is \<open>url.QueryEscape\<close>; \<open>RelTime a b\<close> is
  \<open>humanize.RelTime(a, b, "ago", "from now")\<close>.\<close>

record adminLib =
  QueryEscape :: "string \<Rightarrow> string"
  RelTime :: "time \<Rightarrow> time \<Rightarrow> string"

datatype response = Forbidden | Body string

text \<open>What the loop of \<open>adminDataHandler\<close> reads for each entry of the map: the
  key, the number of clients and the time of the last message.\<close>

definition adminRows :: "world \<Rightarrow> (string \<times> nat \<times> time) list" where
  "adminRows w =
     map (\<lambda>(ip, room). (ip, numClients (roomStore w room), whenLastMsg (roomStore w room)))
       (rooms w)"

definition adminDataHandler ::
  "adminLib \<Rightarrow> string \<Rightarrow> time \<Rightarrow> world \<Rightarrow> request \<Rightarrow> response" where
  "adminDataHandler A adminKey now w r =
     (if \<not> strings_HasSuffix (Header_Get (Header r) ''HX-Current-URL'')
             (''?'' @ QueryEscape A adminKey)
      then Forbidden
      else Body
        (''<p>'' @ fmt_d (length (rooms w)) @ '' chat rooms</p><hr />''
         @ concat (map (\<lambda>(ip, n, t).
               ''<h2>'' @ ip @ ''</h2><p>'' @ fmt_d n @ '' chatters</p><p>Last message: ''
                 @ RelTime A t now @ ''</p>'')
             (adminRows w))))"

subsection \<open>Sequences of calls on a room\<close>

text \<open>What happens to a room, one call at a time: \<open>chatRoom.addClient\<close> (with the
  two numbers drawn and the clock reading), \<open>chatRoom.removeClient\<close>, the send of a
  message on \<open>incoming\<close> by \<open>connect\<close>, a turn of the loop of \<open>start\<close>, and
  \<open>connect\<close> taking a string from the queue of a client.\<close>

datatype roomOp =
  AddClient cid nat nat time
| RemoveClient cid time
| Submit msg
| Turn time
| Deliver cid

fun roomStep ::
  "textLib \<Rightarrow> data \<Rightarrow> roomOp \<Rightarrow> (cid \<Rightarrow> client) \<times> chatRoom
     \<Rightarrow> error + ((cid \<Rightarrow> client) \<times> chatRoom)" where
  "roomStep L D (AddClient c r1 r2 now) (h, cr) = chatRoom_addClient L D r1 r2 now h cr c"
| "roomStep L D (RemoveClient c now) (h, cr) =
     (case chatRoom_removeClient L now h cr c of
        Inl e \<Rightarrow> Inl e
      | Inr cr1 \<Rightarrow> Inr (h, cr1))"
| "roomStep L D (Submit m) (h, cr) =
     (case sendIncoming m cr of Inl e \<Rightarrow> Inl e | Inr cr1 \<Rightarrow> Inr (h, cr1))"
| "roomStep L D (Turn now) (h, cr) = startTurn L now h cr"
| "roomStep L D (Deliver c) (h, cr) =
     (case outgoing (h c) of
        [] \<Rightarrow> Inl Blocked
      | s # ss \<Rightarrow> Inr (h(c := (h c)\<lparr>outgoing := ss\<rparr>), cr))"

text \<open>A sequence of calls stops at the first that panics or cannot complete.\<close>

fun roomRun ::
  "textLib \<Rightarrow> data \<Rightarrow> roomOp list \<Rightarrow> (cid \<Rightarrow> client) \<times> chatRoom
     \<Rightarrow> error + ((cid \<Rightarrow> client) \<times> chatRoom)" where
  "roomRun L D [] s = Inr s"
| "roomRun L D (x # xs) s =
     (case roomStep L D x s of Inl e \<Rightarrow> Inl e | Inr s1 \<Rightarrow> roomRun L D xs s1)"

section \<open>Notions of the statements\<close>

text \<open>The test of \<open>handleMsg\<close> for a rename command: the text starts with
  \<open>/nick\<close> and a space, and something follows.\<close>

definition nickCommand :: "string \<Rightarrow> bool" where
  "nickCommand t \<longleftrightarrow> strings_HasPrefix t ''/nick '' \<and> length t > length ''/nick ''"

text \<open>The name a rename command asks for.\<close>

definition askedNick :: "textLib \<Rightarrow> msg \<Rightarrow> string" where
  "askedNick L m = sanitizeNick L (drop (length ''/nick '') (msg_text m))"

definition errorNotice :: "textLib \<Rightarrow> time \<Rightarrow> string \<Rightarrow> string" where
  "errorNotice L now txt = createSpecialMsg L now txt ''error''"

text \<open>The two refusals at once: the store after them differs from the store before
  only by one \<open>sendText\<close> of an error notice to the author.\<close>

definition refusal :: "textLib \<Rightarrow> msg \<Rightarrow> string" where
  "refusal L m =
     (if askedNick L m = [] then ''Nickname cannot be empty''
      else ''That nickname is already in use'')"

text \<open>The payload a client gets in the loop of \<open>start\<close>.\<close>

definition payloadFor :: "msg \<Rightarrow> string \<Rightarrow> string \<Rightarrow> cid \<Rightarrow> string" where
  "payloadFor m authorMsg chatMsg c =
     (if msg_author m = Some c then authorMsg @ clearInputFieldMsg else chatMsg)"

text \<open>The words of the claim: the text cut to at most \<open>n\<close> whole clusters.\<close>

definition firstClusters :: "nat \<Rightarrow> string list \<Rightarrow> string" where
  "firstClusters n gs = concat (take n gs)"

text \<open>No two members of the room hold the same nickname.\<close>

definition uniqueNicks :: "(cid \<Rightarrow> client) \<Rightarrow> chatRoom \<Rightarrow> bool" where
  "uniqueNicks h cr \<longleftrightarrow> distinct (map (\<lambda>c. nick (h c)) (clients cr))"

section \<open>Concrete inputs\<close>

subsection \<open>The library functions on plain ASCII text\<close>

text \<open>
  To run the model on concrete inputs, \<open>testLib\<close> gives what the functions of
  \<open>textLib\<close> return on ASCII text that holds no colon (so that \<open>urlRe\<close> matches
  nothing) and on the first ten seconds of 1970: such text is valid UTF-8 in normal
  form, its white space is the six ASCII space characters, each of its characters is a
  grapheme cluster of its own (but a carriage return with its line feed), and
  \<open>strings.Title\<close> puts in upper case the letters that follow a character other than
  a letter, a digit or an underscore. No theorem about all libraries rests on it.
\<close>

definition asciiSpace :: "char \<Rightarrow> bool" where
  "asciiSpace c \<longleftrightarrow> c \<in> set [CHR 0x09, CHR 0x0A, CHR 0x0B, CHR 0x0C, CHR 0x0D, CHR '' '']"

definition asciiTrimSpace :: "string \<Rightarrow> string" where
  "asciiTrimSpace s = rev (dropWhile asciiSpace (rev (dropWhile asciiSpace s)))"

fun asciiGraphemes :: "string \<Rightarrow> string list" where
  "asciiGraphemes [] = []"
| "asciiGraphemes [c] = [[c]]"
| "asciiGraphemes (c # d # s) =
     (if c = CHR 0x0D \<and> d = CHR 0x0A then [c, d] # asciiGraphemes s
      else [c] # asciiGraphemes (d # s))"

definition asciiLower :: string where
  "asciiLower = ''abcdefghijklmnopqrstuvwxyz''"

definition asciiUpper :: string where
  "asciiUpper = ''ABCDEFGHIJKLMNOPQRSTUVWXYZ''"

definition isSeparator :: "char \<Rightarrow> bool" where
  "isSeparator c \<longleftrightarrow> c \<notin> set (asciiLower @ asciiUpper @ ''0123456789_'')"

definition toTitle :: "char \<Rightarrow> char" where
  "toTitle c = (case map_of (zip asciiLower asciiUpper) c of None \<Rightarrow> c | Some u \<Rightarrow> u)"

fun asciiTitleFrom :: "char \<Rightarrow> string \<Rightarrow> string" where
  "asciiTitleFrom prev [] = []"
| "asciiTitleFrom prev (c # s) =
     (if isSeparator prev then toTitle c else c) # asciiTitleFrom c s"

definition testLib :: textLib where
  "testLib =
     \<lparr>ToValidUTF8 = (\<lambda>s r. s),
      TrimSpace = asciiTrimSpace,
      NFC = (\<lambda>s. s),
      Graphemes = asciiGraphemes,
      urlRe_ReplaceAllStringFunc = (\<lambda>s f. s),
      Title = asciiTitleFrom (CHR '' ''),
      FormatRFC3339 = (\<lambda>t. ''1970-01-01T00:00:0'' @ fmt_d (nat t) @ ''Z'')\<rparr>"

definition testData :: data where
  "testData = \<lparr>Adjectives = [''happy'', ''brave''], Animals = [''otter'', ''lynx'']\<rparr>"

subsection \<open>Clients, rooms, messages and requests\<close>

text \<open>
  The stores, rooms, messages, calls and requests the theorems below are run on: a
  client whose queue is full, a room whose members 1 and 2 are named \<open>HappyLynx\<close>
  and \<open>HappyLynx2\<close>, messages of the member 1, and a text of carriage returns with
  line feeds.
\<close>

definition slowClient :: client where
  "slowClient = \<lparr>nick = ''A'', outgoing = replicate 16 ''x'', closeSlowCalls = 0\<rparr>"

definition chatLine :: msg where
  "chatLine = \<lparr>msg_nick = ''A'', msg_text = ''hi'', msg_author = Some 1, msg_when = 5,
                msg_raw = []\<rparr>"

definition lynxClients :: "cid \<Rightarrow> client" where
  "lynxClients = newClients
     (1 := newClient\<lparr>nick := ''HappyLynx''\<rparr>, 2 := newClient\<lparr>nick := ''HappyLynx2''\<rparr>)"

definition lynxRoom :: chatRoom where
  "lynxRoom = newChatRoom\<lparr>clients := [2, 1]\<rparr>"

definition crlfText :: string where
  "crlfText = ''a'' @ concat (replicate 600 [CHR 0x0D, CHR 0x0A]) @ ''b''"

definition blankMsg :: msg where
  "blankMsg = \<lparr>msg_nick = ''HappyLynx'', msg_text = ''   '', msg_author = Some 1,
                msg_when = 5, msg_raw = []\<rparr>"

definition takenNickMsg :: msg where
  "takenNickMsg = \<lparr>msg_nick = ''HappyLynx'', msg_text = ''/nick HappyLynx2'',
                    msg_author = Some 1, msg_when = 5, msg_raw = []\<rparr>"

definition ownNickMsg :: msg where
  "ownNickMsg = \<lparr>msg_nick = ''HappyLynx'', msg_text = ''/nick HappyLynx'',
                  msg_author = Some 1, msg_when = 5, msg_raw = []\<rparr>"

definition twoJoinOneRename :: "roomOp list" where
  "twoJoinOneRename =
     [AddClient 1 0 1 5, AddClient 2 0 1 6, Submit takenNickMsg, Turn 7, Turn 8, Turn 9]"

text \<open>A request with no header from the loopback address, and a library that
  reads the address as the standard one does.\<close>

definition localRequest :: request where
  "localRequest = \<lparr>Header = Map.empty, RemoteAddr = ''127.0.0.1:5000''\<rparr>"

definition localNet :: netLib where
  "localNet =
     \<lparr>SplitHostPort = (\<lambda>a. if a = ''127.0.0.1:5000'' then Inr (''127.0.0.1'', ''5000'')
                            else Inl ''missing port in address''),
      ParseIP = (\<lambda>s. if s = ''127.0.0.1'' then [127, 0, 0, 1] else []),
      IsPrivate = (\<lambda>b. False),
      IsLoopback = (\<lambda>b. b = [127, 0, 0, 1])\<rparr>"

section \<open>Delivery to the clients\<close>

lemma sendText_room:
  "length (outgoing c) < clientMsgBuffer \<Longrightarrow> sendText s c = c\<lparr>outgoing := outgoing c @ [s]\<rparr>"
  by (simp add: sendText_def)

lemma sendText_full:
  "\<not> length (outgoing c) < clientMsgBuffer \<Longrightarrow>
     sendText s c = c\<lparr>closeSlowCalls := closeSlowCalls c + 1\<rparr>"
  by (simp add: sendText_def)

lemma sendText_nick [simp]: "nick (sendText s c) = nick c"
  by (simp add: sendText_def)

lemma broadcast_other: "d \<notin> set cs \<Longrightarrow> broadcast m a ch cs h d = h d"
  by (induction cs arbitrary: h) auto

lemma broadcast_member:
  "distinct cs \<Longrightarrow> d \<in> set cs \<Longrightarrow>
     broadcast m a ch cs h d = sendText (payloadFor m a ch d) (h d)"
proof (induction cs arbitrary: h)
  case Nil
  then show ?case by simp
next
  case (Cons c cs)
  show ?case
  proof (cases "d = c")
    case True
    with Cons.prems have "d \<notin> set cs" by simp
    then show ?thesis using True
      by (simp add: broadcast_other payloadFor_def)
  next
    case False
    with Cons.prems have "distinct cs" "d \<in> set cs" by simp_all
    from Cons.IH [OF this] show ?thesis using False by simp
  qed
qed

lemma broadcast_nick [simp]: "nick (broadcast m a ch cs h d) = nick (h d)"
  by (induction cs arbitrary: h) auto

text \<open>
  Claim C3. \<open>sendText\<close> is a \<open>select\<close> with a \<open>default\<close> case, so it returns in
  every state. When the queue of the client (capacity 16) has room, the string is
  appended and \<open>closeSlow\<close> is not started; when the queue is full, the queue stays as
  it is and \<open>closeSlow\<close> is started once. In the loop over the clients of a room (the
  keys of a map, so no client twice), every member gets exactly one \<open>sendText\<close> of
  its payload, whatever the queues of the other members hold, and no other client is
  touched.
\<close>

theorem sendText_never_blocks_others:
  "clientMsgBuffer = 16
   \<and> (length (outgoing c) < 16 \<longrightarrow>
        outgoing (sendText s c) = outgoing c @ [s]
        \<and> closeSlowCalls (sendText s c) = closeSlowCalls c)
   \<and> (length (outgoing c) \<ge> 16 \<longrightarrow>
        outgoing (sendText s c) = outgoing c
        \<and> closeSlowCalls (sendText s c) = closeSlowCalls c + 1)
   \<and> (distinct cs \<longrightarrow>
        (\<forall>d. broadcast m a ch cs h d =
               (if d \<in> set cs then sendText (payloadFor m a ch d) (h d) else h d)))"
proof -
  have b: "clientMsgBuffer = 16" by (simp add: clientMsgBuffer_def)
  have "distinct cs \<longrightarrow>
        (\<forall>d. broadcast m a ch cs h d =
               (if d \<in> set cs then sendText (payloadFor m a ch d) (h d) else h d))"
    by (simp add: broadcast_member broadcast_other)
  then show ?thesis
    using b by (simp add: sendText_def)
qed

text \<open>Two members, the first with a full queue: the second still gets the
  message, the first gets nothing and its \<open>closeSlow\<close> is started.\<close>

theorem sendText_never_blocks_others_witness:
  "length (outgoing slowClient) \<ge> 16
   \<and> length (outgoing newClient) < 16
   \<and> distinct [1, 2 :: cid]
   \<and> outgoing (sendText ''y'' newClient) = [''y'']
   \<and> closeSlowCalls (sendText ''y'' newClient) = 0
   \<and> outgoing (sendText ''y'' slowClient) = replicate 16 ''x''
   \<and> closeSlowCalls (sendText ''y'' slowClient) = 1
   \<and> outgoing (broadcast chatLine ''mine'' ''theirs'' [1, 2] (newClients(1 := slowClient)) 2)
       = [''theirs'']
   \<and> outgoing (broadcast chatLine ''mine'' ''theirs'' [1, 2] (newClients(1 := slowClient)) 1)
       = replicate 16 ''x''
   \<and> closeSlowCalls
        (broadcast chatLine ''mine'' ''theirs'' [1, 2] (newClients(1 := slowClient)) 1) = 1"
proof -
  have f: "length (outgoing slowClient) \<ge> 16" "distinct [1, 2 :: cid]"
    "length (outgoing newClient) < 16"
    by (simp_all add: slowClient_def newClient_def)
  note t1 = sendText_never_blocks_others [of slowClient "''y''" "[1, 2]" chatLine "''mine''"
      "''theirs''" "newClients(1 := slowClient)"]
  note t2 = sendText_never_blocks_others [of newClient "''y''" "[1, 2]" chatLine "''mine''"
      "''theirs''" "newClients(1 := slowClient)"]
  have s1: "outgoing (sendText ''y'' slowClient) = outgoing slowClient"
    "closeSlowCalls (sendText ''y'' slowClient) = closeSlowCalls slowClient + 1"
    using t1 f by blast+
  have s2: "outgoing (sendText ''y'' newClient) = outgoing newClient @ [''y'']"
    "closeSlowCalls (sendText ''y'' newClient) = closeSlowCalls newClient"
    using t2 f by blast+
  have b: "broadcast chatLine ''mine'' ''theirs'' [1, 2] (newClients(1 := slowClient)) d =
      (if d \<in> set [1, 2]
       then sendText (payloadFor chatLine ''mine'' ''theirs'' d) ((newClients(1 := slowClient)) d)
       else (newClients(1 := slowClient)) d)" for d
    using t1 f by blast
  have b2: "broadcast chatLine ''mine'' ''theirs'' [1, 2] (newClients(1 := slowClient)) 2
      = sendText ''theirs'' newClient"
    by (simp add: b payloadFor_def chatLine_def newClients_def)
  have b1: "broadcast chatLine ''mine'' ''theirs'' [1, 2] (newClients(1 := slowClient)) 1
      = sendText (''mine'' @ clearInputFieldMsg) slowClient"
    by (simp add: b payloadFor_def chatLine_def)
  have s3: "outgoing (sendText ''theirs'' newClient) = [''theirs'']"
    by (simp add: sendText_def newClient_def clientMsgBuffer_def)
  have s4: "sendText (''mine'' @ clearInputFieldMsg) slowClient
      = slowClient\<lparr>closeSlowCalls := closeSlowCalls slowClient + 1\<rparr>"
    by (rule sendText_full) (simp add: slowClient_def clientMsgBuffer_def)
  have c1: "outgoing (sendText ''y'' newClient) = [''y'']"
    "closeSlowCalls (sendText ''y'' newClient) = 0"
    "outgoing (sendText ''y'' slowClient) = replicate 16 ''x''"
    "closeSlowCalls (sendText ''y'' slowClient) = 1"
    unfolding s1 s2 by (simp_all add: slowClient_def newClient_def)
  have c2: "outgoing (broadcast chatLine ''mine'' ''theirs'' [1, 2]
      (newClients(1 := slowClient)) 2) = [''theirs'']"
    unfolding b2 s3 ..
  have c3: "outgoing (broadcast chatLine ''mine'' ''theirs'' [1, 2]
        (newClients(1 := slowClient)) 1) = replicate 16 ''x''"
    "closeSlowCalls (broadcast chatLine ''mine'' ''theirs'' [1, 2]
        (newClients(1 := slowClient)) 1) = 1"
    unfolding b1 s4 by (simp_all add: slowClient_def)
  show ?thesis
    by (intro conjI f c1 c2 c3)
qed

section \<open>Allocating a nickname\<close>

lemma strings_ReplaceAll_space: "strings_ReplaceAll s '' '' [] = filter (\<lambda>c. c \<noteq> CHR '' '') s"
  by (induction s) (auto simp: strings_HasPrefix_def)

lemma rand_Intn_range: "0 < n \<Longrightarrow> \<exists>k < n. rand_Intn r n = Inr k"
  by (simp add: rand_Intn_def)

lemma genNick_pools:
  assumes "Adjectives D \<noteq> []" and "Animals D \<noteq> []"
  shows "\<exists>a \<in> set (Adjectives D). \<exists>b \<in> set (Animals D).
           genNick L D r1 r2 = Inr (filter (\<lambda>c. c \<noteq> CHR '' '') (Title L (a @ '' '' @ b)))"
proof -
  from assms obtain i j where i: "i < length (Adjectives D)" "rand_Intn r1 (length (Adjectives D)) = Inr i"
    and j: "j < length (Animals D)" "rand_Intn r2 (length (Animals D)) = Inr j"
    using rand_Intn_range [of "length (Adjectives D)" r1] rand_Intn_range [of "length (Animals D)" r2]
    by auto
  have "genNick L D r1 r2 =
      Inr (filter (\<lambda>c. c \<noteq> CHR '' '') (Title L (Adjectives D ! i @ '' '' @ Animals D ! j)))"
    by (simp add: genNick_def i j strings_ReplaceAll_space)
  moreover have "Adjectives D ! i \<in> set (Adjectives D)" "Animals D ! j \<in> set (Animals D)"
    using i j by simp_all
  ultimately show ?thesis by blast
qed

text \<open>From the second turn on, the loop holds the name with the suffix \<open>i0\<close> and
  tries the suffixes in increasing order: it returns the first one not in use.\<close>

lemma getNewNickLoop_suffixed:
  "nk = og @ fmt_d i0 \<Longrightarrow> i = Suc i0 \<Longrightarrow>
     \<exists>k \<ge> i0. getNewNickLoop h cr og nk i = og @ fmt_d k
       \<and> \<not> nickInUse h cr (og @ fmt_d k)
       \<and> (\<forall>j. i0 \<le> j \<and> j < k \<longrightarrow> nickInUse h cr (og @ fmt_d j))"
proof (induction h cr og nk i arbitrary: i0 rule: getNewNickLoop.induct)
  case (1 h cr og nk i)
  show ?case
  proof (cases "nickInUse h cr nk")
    case False
    then have "getNewNickLoop h cr og nk i = og @ fmt_d i0"
      using "1.prems" by (subst getNewNickLoop.simps) simp
    with False "1.prems" show ?thesis by auto
  next
    case True
    from "1.IH" [OF True, of "Suc i0"] "1.prems"
    obtain k where k: "Suc i0 \<le> k"
      "getNewNickLoop h cr og (og @ fmt_d i) (i + 1) = og @ fmt_d k"
      "\<not> nickInUse h cr (og @ fmt_d k)"
      "\<forall>j. Suc i0 \<le> j \<and> j < k \<longrightarrow> nickInUse h cr (og @ fmt_d j)"
      by auto
    have "getNewNickLoop h cr og nk i = og @ fmt_d k"
      using True k(2) by (subst getNewNickLoop.simps) simp
    moreover have "\<forall>j. i0 \<le> j \<and> j < k \<longrightarrow> nickInUse h cr (og @ fmt_d j)"
      using k(4) True "1.prems" by (metis Suc_leI le_neq_implies_less)
    ultimately show ?thesis using k(1,3) by (metis Suc_leD)
  qed
qed

lemma getNewNickLoop_free:
  "\<not> nickInUse h cr og \<Longrightarrow> getNewNickLoop h cr og og 2 = og"
  by (subst getNewNickLoop.simps) simp

lemma getNewNickLoop_taken:
  assumes "nickInUse h cr og"
  shows "\<exists>k \<ge> 2. getNewNickLoop h cr og og 2 = og @ fmt_d k
           \<and> \<not> nickInUse h cr (og @ fmt_d k)
           \<and> (\<forall>j. 2 \<le> j \<and> j < k \<longrightarrow> nickInUse h cr (og @ fmt_d j))"
proof -
  have "getNewNickLoop h cr og og 2 = getNewNickLoop h cr og (og @ fmt_d 2) 3"
    using assms by (subst getNewNickLoop.simps) (simp add: numeral_3_eq_3)
  with getNewNickLoop_suffixed [of "og @ fmt_d 2" og 2 3 h cr]
  show ?thesis by (simp add: numeral_3_eq_3)
qed

text \<open>The suffix stays small: all the suffixes below it are names of members.\<close>

lemma used_suffixes_bound:
  assumes "\<forall>j. 2 \<le> j \<and> j < k \<longrightarrow> nickInUse h cr (og @ fmt_d j)"
  shows "k \<le> length (clients cr) + 2"
proof -
  let ?N = "(\<lambda>c. nick (h c)) ` set (clients cr)"
  have "(\<lambda>j. og @ fmt_d j) ` {2..<k} \<subseteq> ?N"
    using assms by (auto simp: nickInUse_iff)
  then have "card ((\<lambda>j. og @ fmt_d j) ` {2..<k}) \<le> card ?N"
    by (simp add: card_mono)
  moreover have "card ((\<lambda>j. og @ fmt_d j) ` {2..<k}) = k - 2"
    by (simp add: card_image inj_on_def fmt_d_inj)
  moreover have "card ?N \<le> length (clients cr)"
    by (metis card_image_le card_length le_trans List.finite_set)
  ultimately show ?thesis by linarith
qed

text \<open>
  Claim C9. With pools that are not empty, \<open>genNick\<close> composes an adjective and an
  animal of the pools, titled and with the space removed, and \<open>getNewNick\<close> returns
  that name when no member holds it; otherwise it returns the name with the first
  suffix 2, 3, ... that makes a name no member holds. The name returned is never in
  use. The suffix is at most the number of members plus 2, so the counter \<open>i\<close> of the
  loop stays far below the range of a Go \<open>int\<close>.
\<close>

theorem getNewNick_first_free_suffix:
  assumes "Adjectives D \<noteq> []" and "Animals D \<noteq> []"
  shows "\<exists>a b og res.
           a \<in> set (Adjectives D) \<and> b \<in> set (Animals D)
           \<and> og = filter (\<lambda>c. c \<noteq> CHR '' '') (Title L (a @ '' '' @ b))
           \<and> genNick L D r1 r2 = Inr og
           \<and> getNewNick L D r1 r2 h cr = Inr res
           \<and> \<not> nickInUse h cr res
           \<and> (\<not> nickInUse h cr og \<longrightarrow> res = og)
           \<and> (nickInUse h cr og \<longrightarrow>
                (\<exists>k \<ge> 2. res = og @ fmt_d k \<and> k \<le> length (clients cr) + 2
                   \<and> (\<forall>j. 2 \<le> j \<and> j < k \<longrightarrow> nickInUse h cr (og @ fmt_d j))))"
proof -
  from genNick_pools [OF assms, of L r1 r2]
  obtain a b where ab: "a \<in> set (Adjectives D)" "b \<in> set (Animals D)"
    "genNick L D r1 r2 = Inr (filter (\<lambda>c. c \<noteq> CHR '' '') (Title L (a @ '' '' @ b)))"
    by blast
  define og where "og = filter (\<lambda>c. c \<noteq> CHR '' '') (Title L (a @ '' '' @ b))"
  have g: "genNick L D r1 r2 = Inr og" using ab(3) og_def by simp
  have r: "getNewNick L D r1 r2 h cr = Inr (getNewNickLoop h cr og og 2)"
    by (simp add: getNewNick_def g)
  show ?thesis
  proof (cases "nickInUse h cr og")
    case False
    then have "getNewNickLoop h cr og og 2 = og" by (rule getNewNickLoop_free)
    with False ab(1,2) og_def g r show ?thesis by auto
  next
    case True
    from getNewNickLoop_taken [OF True]
    obtain k where k: "2 \<le> k" "getNewNickLoop h cr og og 2 = og @ fmt_d k"
      "\<not> nickInUse h cr (og @ fmt_d k)"
      "\<forall>j. 2 \<le> j \<and> j < k \<longrightarrow> nickInUse h cr (og @ fmt_d j)"
      by blast
    from k(4) have "k \<le> length (clients cr) + 2" by (rule used_suffixes_bound)
    with True k ab(1,2) og_def g r show ?thesis by auto
  qed
qed

text \<open>A room whose two members hold \<open>HappyLynx\<close> and \<open>HappyLynx2\<close>: the next
  \<open>HappyLynx\<close> becomes \<open>HappyLynx3\<close>.\<close>

theorem getNewNick_first_free_suffix_witness:
  "Adjectives testData \<noteq> [] \<and> Animals testData \<noteq> []
   \<and> genNick testLib testData 0 1 = Inr ''HappyLynx''
   \<and> nickInUse lynxClients lynxRoom ''HappyLynx''
   \<and> getNewNick testLib testData 0 1 lynxClients lynxRoom = Inr ''HappyLynx3''
   \<and> getNewNick testLib testData 0 1 newClients newChatRoom = Inr ''HappyLynx''
   \<and> (\<exists>res. getNewNick testLib testData 0 1 lynxClients lynxRoom = Inr res
         \<and> \<not> nickInUse lynxClients lynxRoom res)"
proof -
  have p: "Adjectives testData \<noteq> []" "Animals testData \<noteq> []"
    by (simp_all add: testData_def)
  have e: "genNick testLib testData 0 1 = Inr ''HappyLynx''"
    "nickInUse lynxClients lynxRoom ''HappyLynx''"
    "getNewNick testLib testData 0 1 lynxClients lynxRoom = Inr ''HappyLynx3''"
    "getNewNick testLib testData 0 1 newClients newChatRoom = Inr ''HappyLynx''"
    by code_simp+
  from getNewNick_first_free_suffix [OF p, of testLib 0 1 lynxClients lynxRoom]
  have "\<exists>res. getNewNick testLib testData 0 1 lynxClients lynxRoom = Inr res
         \<and> \<not> nickInUse lynxClients lynxRoom res"
    by blast
  with p e show ?thesis by blast
qed

section \<open>Truncation by grapheme clusters\<close>

lemma truncLoop_take: "truncLoop mx gs i b = b @ concat (take (mx - i) gs)"
proof (induction gs arbitrary: i b)
  case Nil
  then show ?case by simp
next
  case (Cons g gs)
  show ?case
  proof (cases "i < mx")
    case True
    then obtain d where d: "mx - i = Suc d" "mx - (i + 1) = d"
      by (metis Suc_diff_Suc Suc_eq_plus1 diff_Suc_eq_diff_pred diff_Suc_1)
    show ?thesis using True Cons.IH [of "i + 1" "b @ g"] d by simp
  next
    case False
    then show ?thesis by simp
  qed
qed

text \<open>
  Claim C8. \<open>renderMsgText\<close> repairs the UTF-8 and trims the white space, keeps the
  first 512 grapheme clusters of the result (each whole: the text kept is the
  concatenation of the first clusters, 512 of them or all when there are fewer,
  whatever their lengths in bytes), and only then escapes and links the text. The
  limit 512 is above the limit 30 of \<open>sanitizeNick\<close>, which cuts the same way.
\<close>

theorem renderMsgText_truncates_by_clusters:
  "renderMsgText L t =
     urlRe_ReplaceAllStringFunc L
       (html_EscapeString
          (firstClusters maxMsgTextLen (Graphemes L (TrimSpace L (ToValidUTF8 L t uFFFD)))))
       linkOf
   \<and> sanitizeNick L n =
       html_EscapeString
         (firstClusters maxNickLen
            (Graphemes L (NFC L (TrimSpace L (ToValidUTF8 L n uFFFD)))))
   \<and> maxMsgTextLen = 512 \<and> maxNickLen = 30 \<and> maxNickLen < maxMsgTextLen"
  by (simp add: renderMsgText_def sanitizeNick_def truncLoop_take firstClusters_def
      maxMsgTextLen_def maxNickLen_def)

lemma asciiGraphemes_single:
  "c \<noteq> CHR 0x0D \<Longrightarrow> asciiGraphemes (c # s) = [c] # asciiGraphemes s"
  by (cases s) simp_all

lemma asciiGraphemes_crlf:
  "asciiGraphemes (concat (replicate k [CHR 0x0D, CHR 0x0A]) @ s)
     = replicate k [CHR 0x0D, CHR 0x0A] @ asciiGraphemes s"
  by (induction k) simp_all

lemma asciiTrimSpace_inner:
  "\<not> asciiSpace c \<Longrightarrow> \<not> asciiSpace d \<Longrightarrow> asciiTrimSpace (c # s @ [d]) = c # s @ [d]"
  by (simp add: asciiTrimSpace_def)

lemma html_EscapeString_plain:
  "\<forall>c \<in> set s. escapeChar c = [c] \<Longrightarrow> html_EscapeString s = s"
  by (induction s) (simp_all add: html_EscapeString_def)

text \<open>A text of 602 clusters in 1202 bytes (a letter, 600 times a carriage return
  with its line feed, a letter): the 512 clusters kept are 1023 bytes.\<close>

theorem renderMsgText_truncates_by_clusters_witness:
  "length crlfText = 1202
   \<and> length (Graphemes testLib (TrimSpace testLib (ToValidUTF8 testLib crlfText uFFFD))) = 602
   \<and> renderMsgText testLib crlfText = ''a'' @ concat (replicate 511 [CHR 0x0D, CHR 0x0A])
   \<and> length (renderMsgText testLib crlfText) = 1023"
proof -
  let ?x = "[CHR 0x0D, CHR 0x0A]"
  have t: "TrimSpace testLib (ToValidUTF8 testLib crlfText uFFFD) = crlfText"
    using asciiTrimSpace_inner [of "CHR ''a''" "CHR ''b''" "concat (replicate 600 ?x)"]
    by (simp add: testLib_def crlfText_def asciiSpace_def)
  have g: "Graphemes testLib crlfText = ''a'' # replicate 600 ?x @ [''b'']"
    using asciiGraphemes_crlf [of 600 "''b''"]
    by (simp add: testLib_def crlfText_def asciiGraphemes_single)
  have "take 512 (''a'' # replicate 600 ?x @ [''b'']) = ''a'' # replicate 511 ?x"
    by (simp add: take_Cons')
  then have c: "firstClusters maxMsgTextLen (''a'' # replicate 600 ?x @ [''b''])
      = ''a'' @ concat (replicate 511 ?x)"
    by (simp add: firstClusters_def maxMsgTextLen_def)
  have e: "html_EscapeString (''a'' @ concat (replicate 511 ?x)) = ''a'' @ concat (replicate 511 ?x)"
    by (rule html_EscapeString_plain) (auto simp: escapeChar_def)
  have "renderMsgText testLib crlfText
      = urlRe_ReplaceAllStringFunc testLib (''a'' @ concat (replicate 511 ?x)) linkOf"
    using renderMsgText_truncates_by_clusters [of testLib crlfText "[]"]
    unfolding t g c e by blast
  then have r: "renderMsgText testLib crlfText = ''a'' @ concat (replicate 511 ?x)"
    by (simp add: testLib_def)
  have l: "length crlfText = 1202"
    by (simp add: crlfText_def length_concat sum_list_replicate)
  have l2: "length (Graphemes testLib (TrimSpace testLib (ToValidUTF8 testLib crlfText uFFFD)))
      = 602"
    unfolding t g by simp
  have l3: "length (renderMsgText testLib crlfText) = 1023"
    unfolding r by (simp add: length_concat sum_list_replicate)
  show ?thesis
    using r l l2 l3 by blast
qed

section \<open>What \<open>handleMsg\<close> does with each kind of message\<close>

lemma handleMsg_raw:
  "msg_raw m \<noteq> [] \<Longrightarrow> handleMsg L now h cr m = Inr (h, cr, msg_raw m, msg_raw m)"
  by (simp add: handleMsg_def)

lemma handleMsg_chat:
  "msg_raw m = [] \<Longrightarrow> \<not> nickCommand (msg_text m) \<Longrightarrow>
     handleMsg L now h cr m = Inr (h, cr\<lparr>whenLastMsg := msg_when m\<rparr>, createChatMsg L m)"
  by (auto simp: handleMsg_def nickCommand_def)

lemma handleMsg_nil_author:
  "msg_raw m = [] \<Longrightarrow> nickCommand (msg_text m) \<Longrightarrow> msg_author m = None \<Longrightarrow>
     handleMsg L now h cr m = Inl Panic"
  by (simp add: handleMsg_def nickCommand_def)

lemma handleMsg_empty_nick:
  "msg_raw m = [] \<Longrightarrow> nickCommand (msg_text m) \<Longrightarrow> msg_author m = Some a \<Longrightarrow>
   askedNick L m = [] \<Longrightarrow>
     handleMsg L now h cr m =
       Inr (h(a := sendText (errorNotice L now ''Nickname cannot be empty'') (h a)), cr, [], [])"
  by (simp add: handleMsg_def nickCommand_def askedNick_def errorNotice_def)

lemma handleMsg_nick_taken:
  "msg_raw m = [] \<Longrightarrow> nickCommand (msg_text m) \<Longrightarrow> msg_author m = Some a \<Longrightarrow>
   askedNick L m \<noteq> [] \<Longrightarrow> nickInUse h cr (askedNick L m) \<Longrightarrow>
     handleMsg L now h cr m =
       Inr (h(a := sendText (errorNotice L now ''That nickname is already in use'') (h a)),
            cr, [], [])"
  by (simp add: handleMsg_def nickCommand_def askedNick_def errorNotice_def)

lemma handleMsg_rename:
  "msg_raw m = [] \<Longrightarrow> nickCommand (msg_text m) \<Longrightarrow> msg_author m = Some a \<Longrightarrow>
   askedNick L m \<noteq> [] \<Longrightarrow> \<not> nickInUse h cr (askedNick L m) \<Longrightarrow>
     handleMsg L now h cr m =
       Inr (h(a := (h a)\<lparr>nick := askedNick L m\<rparr>), cr,
            createSpecialMsg L now (nick (h a) @ '' is now known as '' @ askedNick L m) ''notif''
              @ createUserListMsg (nicks (h(a := (h a)\<lparr>nick := askedNick L m\<rparr>)) cr),
            createSpecialMsg L now (nick (h a) @ '' is now known as '' @ askedNick L m) ''notif''
              @ createUserListMsg (nicks (h(a := (h a)\<lparr>nick := askedNick L m\<rparr>)) cr))"
  by (simp add: handleMsg_def nickCommand_def askedNick_def Let_def)

lemma createSpecialMsg_nonempty: "createSpecialMsg L now txt class \<noteq> []"
  by (simp add: createSpecialMsg_def tbodyOpen_def Let_def)

lemma createChatMsg_empty:
  "renderMsgText L (msg_text m) = [] \<Longrightarrow> createChatMsg L m = ([], [])"
  by (simp add: createChatMsg_def isMsgTextValid_def)

lemma createChatMsg_nonempty:
  "renderMsgText L (msg_text m) \<noteq> [] \<Longrightarrow>
     fst (createChatMsg L m) \<noteq> [] \<and> snd (createChatMsg L m) \<noteq> []"
  by (simp add: createChatMsg_def isMsgTextValid_def Let_def tbodyOpen_def)

lemma nicks_same:
  "\<forall>c. nick (h1 c) = nick (h c) \<Longrightarrow> nicks h1 cr = nicks h cr"
  by (simp add: nicks_def)

section \<open>Messages that are dropped\<close>

text \<open>When the text is empty after the repair, the trimming, the truncation and the
  escaping, and the URL pattern finds nothing to replace in the empty string, then
  \<open>renderMsgText\<close> returns the empty string.\<close>

lemma renderMsgText_empty_content:
  assumes "html_EscapeString
             (firstClusters maxMsgTextLen (Graphemes L (TrimSpace L (ToValidUTF8 L t uFFFD)))) = []"
    and "urlRe_ReplaceAllStringFunc L [] linkOf = []"
  shows "renderMsgText L t = []"
  using assms by (simp add: renderMsgText_def truncLoop_take firstClusters_def)

text \<open>
  Claim C5. A user message (not raw) that is not a rename command and whose text
  \<open>renderMsgText\<close> turns into the empty string: \<open>createChatMsg\<close> returns two empty
  strings, \<open>handleMsg\<close> passes them on, and the turn of \<open>start\<close> skips the loop over
  the clients. The store of clients is the same after the turn: no member got a
  line, and the author got no notice.
\<close>

theorem empty_message_dropped:
  assumes "msg_raw m = []" and "\<not> nickCommand (msg_text m)"
    and "renderMsgText L (msg_text m) = []"
  shows "createChatMsg L m = ([], [])
         \<and> handleMsg L now h cr m = Inr (h, cr\<lparr>whenLastMsg := msg_when m\<rparr>, [], [])
         \<and> startIter L now h cr m = Inr (h, cr\<lparr>whenLastMsg := msg_when m\<rparr>)"
proof -
  have c: "createChatMsg L m = ([], [])"
    using assms(3) by (rule createChatMsg_empty)
  have hm: "handleMsg L now h cr m = Inr (h, cr\<lparr>whenLastMsg := msg_when m\<rparr>, [], [])"
    using handleMsg_chat [OF assms(1,2), of L now h cr] c by simp
  show ?thesis
    using c hm by (simp add: startIter_def)
qed

text \<open>The member 1 of a room of two sends three spaces.\<close>

theorem empty_message_dropped_witness:
  "msg_raw blankMsg = [] \<and> \<not> nickCommand (msg_text blankMsg)
   \<and> renderMsgText testLib (msg_text blankMsg) = []
   \<and> createChatMsg testLib blankMsg = ([], [])
   \<and> handleMsg testLib 7 lynxClients lynxRoom blankMsg
       = Inr (lynxClients, lynxRoom\<lparr>whenLastMsg := msg_when blankMsg\<rparr>, [], [])
   \<and> startIter testLib 7 lynxClients lynxRoom blankMsg
       = Inr (lynxClients, lynxRoom\<lparr>whenLastMsg := msg_when blankMsg\<rparr>)"
proof -
  have a: "msg_raw blankMsg = []" "\<not> nickCommand (msg_text blankMsg)"
    "renderMsgText testLib (msg_text blankMsg) = []"
    by code_simp+
  from empty_message_dropped [OF a, of 7 lynxClients lynxRoom] a show ?thesis
    by blast
qed

section \<open>Rename commands that are refused\<close>

lemma handleMsg_refused:
  assumes "msg_raw m = []" and "nickCommand (msg_text m)" and "msg_author m = Some a"
    and "askedNick L m = [] \<or> nickInUse h cr (askedNick L m)"
  shows "handleMsg L now h cr m =
           Inr (h(a := sendText (errorNotice L now (refusal L m)) (h a)), cr, [], [])"
proof (cases "askedNick L m = []")
  case True
  then show ?thesis
    using handleMsg_empty_nick [OF assms(1-3) True] by (simp add: refusal_def)
next
  case False
  with assms(4) have "nickInUse h cr (askedNick L m)" by simp
  from handleMsg_nick_taken [OF assms(1-3) False this] False show ?thesis
    by (simp add: refusal_def)
qed

lemma startIter_refused:
  assumes "msg_raw m = []" and "nickCommand (msg_text m)" and "msg_author m = Some a"
    and "askedNick L m = [] \<or> nickInUse h cr (askedNick L m)"
  shows "startIter L now h cr m =
           Inr (h(a := sendText (errorNotice L now (refusal L m)) (h a)), cr)"
  by (simp add: startIter_def handleMsg_refused [OF assms])

text \<open>
  Claim C4. A user message that is a rename command, with an author, whose name asked
  for is empty after \<open>sanitizeNick\<close> or is in use in the room: \<open>handleMsg\<close> returns two
  empty strings, so the turn of \<open>start\<close> sends nothing to the room; the room is
  returned as it was (members, last activity, queue); in the store only the author
  differs, by exactly one \<open>sendText\<close> of an error notice (appended to the queue of the
  author when it has room); every client keeps its nickname, so the names of the room
  are the same.
\<close>

theorem rejected_rename_private:
  assumes "msg_raw m = []" and "nickCommand (msg_text m)" and "msg_author m = Some a"
    and "askedNick L m = [] \<or> nickInUse h cr (askedNick L m)"
  shows "\<exists>h1 notice.
           handleMsg L now h cr m = Inr (h1, cr, [], [])
           \<and> startIter L now h cr m = Inr (h1, cr)
           \<and> notice = errorNotice L now (refusal L m) \<and> notice \<noteq> []
           \<and> h1 a = sendText notice (h a)
           \<and> (length (outgoing (h a)) < clientMsgBuffer \<longrightarrow>
                outgoing (h1 a) = outgoing (h a) @ [notice])
           \<and> (\<forall>c. c \<noteq> a \<longrightarrow> h1 c = h c)
           \<and> (\<forall>c. nick (h1 c) = nick (h c))
           \<and> nicks h1 cr = nicks h cr"
proof -
  define notice where "notice = errorNotice L now (refusal L m)"
  define h1 where "h1 = h(a := sendText notice (h a))"
  have 1: "handleMsg L now h cr m = Inr (h1, cr, [], [])"
    using handleMsg_refused [OF assms] by (simp add: h1_def notice_def)
  have 2: "startIter L now h cr m = Inr (h1, cr)"
    using startIter_refused [OF assms] by (simp add: h1_def notice_def)
  have 3: "notice \<noteq> []"
    by (simp add: notice_def errorNotice_def createSpecialMsg_nonempty)
  have 4: "h1 a = sendText notice (h a)" "\<forall>c. c \<noteq> a \<longrightarrow> h1 c = h c"
    by (simp_all add: h1_def)
  have 5: "\<forall>c. nick (h1 c) = nick (h c)"
    by (simp add: h1_def)
  then have 6: "nicks h1 cr = nicks h cr" by (rule nicks_same)
  have 7: "length (outgoing (h a)) < clientMsgBuffer \<longrightarrow>
      outgoing (h1 a) = outgoing (h a) @ [notice]"
    by (simp add: h1_def sendText_def)
  show ?thesis
    using 1 2 3 4 5 6 7 notice_def by blast
qed

text \<open>The member 1, named \<open>HappyLynx\<close>, asks for the name \<open>HappyLynx2\<close> of the
  member 2.\<close>

theorem rejected_rename_private_witness:
  "msg_raw takenNickMsg = [] \<and> nickCommand (msg_text takenNickMsg)
   \<and> msg_author takenNickMsg = Some 1
   \<and> askedNick testLib takenNickMsg = ''HappyLynx2''
   \<and> nickInUse lynxClients lynxRoom (askedNick testLib takenNickMsg)
   \<and> (\<exists>h1. handleMsg testLib 7 lynxClients lynxRoom takenNickMsg = Inr (h1, lynxRoom, [], [])
         \<and> outgoing (h1 1) =
             [errorNotice testLib 7 ''That nickname is already in use'']
         \<and> nick (h1 1) = ''HappyLynx'' \<and> h1 2 = lynxClients 2)"
proof -
  have a: "msg_raw takenNickMsg = []" "nickCommand (msg_text takenNickMsg)"
    "msg_author takenNickMsg = Some 1"
    by code_simp+
  have n: "askedNick testLib takenNickMsg = ''HappyLynx2''"
    by code_simp
  have u: "nickInUse lynxClients lynxRoom (askedNick testLib takenNickMsg)"
    unfolding n by code_simp
  then have b: "askedNick testLib takenNickMsg = []
      \<or> nickInUse lynxClients lynxRoom (askedNick testLib takenNickMsg)" ..
  have r: "refusal testLib takenNickMsg = ''That nickname is already in use''"
    by (simp add: refusal_def n)
  have o: "outgoing (lynxClients 1) = []" "nick (lynxClients 1) = ''HappyLynx''"
    "length (outgoing (lynxClients 1)) < clientMsgBuffer"
    by code_simp+
  from rejected_rename_private [OF a b, of 7] obtain h1 where
    h1: "handleMsg testLib 7 lynxClients lynxRoom takenNickMsg = Inr (h1, lynxRoom, [], [])"
      "length (outgoing (lynxClients 1)) < clientMsgBuffer \<longrightarrow>
         outgoing (h1 1) = outgoing (lynxClients 1)
           @ [errorNotice testLib 7 (refusal testLib takenNickMsg)]"
      "\<forall>c. c \<noteq> 1 \<longrightarrow> h1 c = lynxClients c"
      "\<forall>c. nick (h1 c) = nick (lynxClients c)"
    by blast
  have "outgoing (h1 1) = [errorNotice testLib 7 ''That nickname is already in use'']"
    using h1(2) o r by simp
  moreover have "nick (h1 1) = ''HappyLynx''" using h1(4) o by simp
  moreover have "h1 2 = lynxClients 2" using h1(3) by simp
  ultimately show ?thesis using a n u h1(1) by blast
qed

text \<open>
  Claim C10. A member whose rename command asks for its own current name (a name
  that is not empty): \<open>nickInUse\<close> goes through all the members, the author too, so
  the command is refused with the notice that the name is in use, nothing is sent to
  the room and the store changes only by that notice to the author.
\<close>

theorem rename_to_own_nick_rejected:
  assumes "msg_raw m = []" and "nickCommand (msg_text m)" and "msg_author m = Some a"
    and "a \<in> set (clients cr)" and "askedNick L m = nick (h a)" and "nick (h a) \<noteq> []"
  shows "nickInUse h cr (askedNick L m)
         \<and> handleMsg L now h cr m =
             Inr (h(a := sendText (errorNotice L now ''That nickname is already in use'') (h a)),
                  cr, [], [])
         \<and> startIter L now h cr m =
             Inr (h(a := sendText (errorNotice L now ''That nickname is already in use'') (h a)),
                  cr)
         \<and> nick ((h(a := sendText (errorNotice L now ''That nickname is already in use'')
                          (h a))) a) = nick (h a)"
proof -
  have u: "nickInUse h cr (askedNick L m)"
    using assms(4,5) by (auto simp: nickInUse_iff)
  have ne: "askedNick L m \<noteq> []"
    using assms(5,6) by simp
  have 1: "handleMsg L now h cr m =
      Inr (h(a := sendText (errorNotice L now ''That nickname is already in use'') (h a)),
           cr, [], [])"
    using handleMsg_nick_taken [OF assms(1-3) ne u] .
  then have 2: "startIter L now h cr m =
      Inr (h(a := sendText (errorNotice L now ''That nickname is already in use'') (h a)), cr)"
    by (simp add: startIter_def)
  show ?thesis
    using u 1 2 by simp
qed

text \<open>The member 1, named \<open>HappyLynx\<close>, asks for the name \<open>HappyLynx\<close>.\<close>

theorem rename_to_own_nick_rejected_witness:
  "msg_raw ownNickMsg = [] \<and> nickCommand (msg_text ownNickMsg)
   \<and> msg_author ownNickMsg = Some 1 \<and> 1 \<in> set (clients lynxRoom)
   \<and> askedNick testLib ownNickMsg = nick (lynxClients 1) \<and> nick (lynxClients 1) \<noteq> []
   \<and> handleMsg testLib 7 lynxClients lynxRoom ownNickMsg =
       Inr (lynxClients
              (1 := sendText (errorNotice testLib 7 ''That nickname is already in use'')
                      (lynxClients 1)),
            lynxRoom, [], [])"
proof -
  have a: "msg_raw ownNickMsg = []" "nickCommand (msg_text ownNickMsg)"
    "msg_author ownNickMsg = Some 1" "1 \<in> set (clients lynxRoom)"
    "askedNick testLib ownNickMsg = nick (lynxClients 1)" "nick (lynxClients 1) \<noteq> []"
    by code_simp+
  from rename_to_own_nick_rejected
    [of ownNickMsg 1 lynxRoom testLib lynxClients 7, OF a] a
  show ?thesis
    by blast
qed

section \<open>The time of the last message\<close>

lemma handleMsg_room:
  assumes "handleMsg L now h cr m = Inr (h1, cr1, a, b)"
  shows "cr1 = (if msg_raw m = [] \<and> \<not> nickCommand (msg_text m)
                then cr\<lparr>whenLastMsg := msg_when m\<rparr> else cr)"
proof (cases "msg_raw m = []")
  case False
  then show ?thesis using assms by (simp add: handleMsg_raw)
next
  case raw: True
  show ?thesis
  proof (cases "nickCommand (msg_text m)")
    case False
    then show ?thesis using assms raw by (simp add: handleMsg_chat)
  next
    case True
    then show ?thesis using assms raw
      by (auto simp: handleMsg_def nickCommand_def Let_def split: option.splits if_splits)
  qed
qed

text \<open>
  Claim C6, as the code has it. \<open>handleMsg\<close> sets \<open>whenLastMsg\<close> to the time of
  the message for every message that is neither raw nor a rename command, before
  \<open>createChatMsg\<close> looks at the text: also when the text turns into the empty string
  and nothing is sent. A raw message and a rename command (refused or not) leave
  \<open>whenLastMsg\<close> as it was. Nothing else of the room changes.
\<close>

theorem whenLastMsg_set_for_every_chat_message:
  assumes "handleMsg L now h cr m = Inr (h1, cr1, a, b)"
  shows "whenLastMsg cr1 =
           (if msg_raw m = [] \<and> \<not> nickCommand (msg_text m) then msg_when m
            else whenLastMsg cr)
         \<and> clients cr1 = clients cr \<and> incoming cr1 = incoming cr \<and> quit cr1 = quit cr"
  using handleMsg_room [OF assms] by simp

theorem whenLastMsg_set_for_every_chat_message_witness:
  "handleMsg testLib 7 lynxClients lynxRoom takenNickMsg
     = Inr (lynxClients
              (1 := sendText (errorNotice testLib 7 ''That nickname is already in use'')
                      (lynxClients 1)),
            lynxRoom, [], [])
   \<and> whenLastMsg lynxRoom =
       (if msg_raw takenNickMsg = [] \<and> \<not> nickCommand (msg_text takenNickMsg)
        then msg_when takenNickMsg else whenLastMsg lynxRoom)
   \<and> clients lynxRoom = [2, 1]"
proof -
  have a: "msg_raw takenNickMsg = []" "nickCommand (msg_text takenNickMsg)"
    "msg_author takenNickMsg = Some 1" "askedNick testLib takenNickMsg \<noteq> []"
    "nickInUse lynxClients lynxRoom (askedNick testLib takenNickMsg)"
    by code_simp+
  note e = handleMsg_nick_taken [OF a, of 7]
  have c: "clients lynxRoom = [2, 1]" by code_simp
  from whenLastMsg_set_for_every_chat_message [OF e] e c show ?thesis
    by blast
qed

text \<open>The claim as the specification words it fails: three spaces from a member
  are dropped (two empty strings come back) and still move \<open>whenLastMsg\<close> from the
  zero time to the time 5 of the message.\<close>

theorem whenLastMsg_unchanged_on_drop_counterexample:
  "renderMsgText testLib (msg_text blankMsg) = []
   \<and> handleMsg testLib 7 lynxClients lynxRoom blankMsg
       = Inr (lynxClients, lynxRoom\<lparr>whenLastMsg := 5\<rparr>, [], [])
   \<and> whenLastMsg lynxRoom = zeroTime
   \<and> whenLastMsg (lynxRoom\<lparr>whenLastMsg := 5\<rparr>) \<noteq> whenLastMsg lynxRoom"
proof -
  have a: "msg_raw blankMsg = []" "\<not> nickCommand (msg_text blankMsg)"
    "renderMsgText testLib (msg_text blankMsg) = []" "msg_when blankMsg = 5"
    by code_simp+
  have "handleMsg testLib 7 lynxClients lynxRoom blankMsg
       = Inr (lynxClients, lynxRoom\<lparr>whenLastMsg := 5\<rparr>, [], [])"
    using handleMsg_chat [OF a(1,2), of testLib 7 lynxClients lynxRoom]
      createChatMsg_empty [OF a(3)] a(4) by simp
  moreover have "whenLastMsg lynxRoom = zeroTime"
    by (simp add: lynxRoom_def newChatRoom_def)
  moreover have "whenLastMsg (lynxRoom\<lparr>whenLastMsg := 5\<rparr>) \<noteq> whenLastMsg lynxRoom"
    by (simp add: lynxRoom_def newChatRoom_def zeroTime_def)
  ultimately show ?thesis using a(3) by blast
qed

section \<open>The key of a room: \<open>getIPString\<close>\<close>

lemma strings_Split_from_nonempty: "strings_Split_from sep cur s \<noteq> []"
  by (induction sep cur s rule: strings_Split_from.induct) auto

lemma strings_Split_nonempty: "strings_Split s sep \<noteq> []"
  by (simp add: strings_Split_def strings_Split_from_nonempty)

lemma strings_Split_empty: "strings_Split [] sep = [[]]"
  by (simp add: strings_Split_def)

lemma getIPString_last:
  "getIPString N r = (last (strings_Split (Header_Get (Header r) ''X-Forwarded-For'') '', ''), [])"
  using strings_Split_nonempty [of "Header_Get (Header r) ''X-Forwarded-For''" "'', ''"]
  by (simp add: getIPString_def Let_def last_conv_nth)

lemma strings_Split_example:
  "strings_Split ''10.0.0.1, 1.2.3.4'' '', '' = [''10.0.0.1'', ''1.2.3.4'']"
  "strings_Split ''1.2.3.4'' '', '' = [''1.2.3.4'']"
  "strings_Split '', '' '', '' = [[], []]"
  by code_simp+

text \<open>
  Claim C7. \<open>strings.Split\<close> never returns an empty list: of the empty string it
  returns the list of the empty string. So the test \<open>len(forwardedIPs) > 0\<close> always
  holds, \<open>getIPString\<close> always returns the last piece of the header value, and the
  lines that read the peer address are never reached. With a forwarded header that is
  what the claim says. For a request with no such header the claim does not hold: the
  function returns the empty string, where the lines after the test would return
  \<open>lan\<close> for the loopback peer.
\<close>

theorem getIPString_ignores_peer_address:
  "getIPString N r = (last (strings_Split (Header_Get (Header r) ''X-Forwarded-For'') '', ''), [])
   \<and> getIPString N localRequest = ([], [])
   \<and> getIPString localNet localRequest = ([], [])
   \<and> peerIPString localNet localRequest = (''lan'', [])"
proof -
  have "Header_Get (Header localRequest) ''X-Forwarded-For'' = []"
    by (simp add: Header_Get_def localRequest_def)
  then have e: "getIPString N localRequest = ([], [])" for N
    by (simp add: getIPString_last strings_Split_empty)
  have p: "peerIPString localNet localRequest = (''lan'', [])"
    by (simp add: peerIPString_def localNet_def localRequest_def)
  show ?thesis
    using getIPString_last [of N r] e p by simp
qed

section \<open>Nicknames stay unique in a room\<close>

lemma uniqueNicks_iff:
  "uniqueNicks h cr \<longleftrightarrow>
     distinct (clients cr)
     \<and> (\<forall>c \<in> set (clients cr). \<forall>d \<in> set (clients cr). c \<noteq> d \<longrightarrow> nick (h c) \<noteq> nick (h d))"
  by (auto simp: uniqueNicks_def distinct_map inj_on_def)

lemma uniqueNicks_cong:
  "\<forall>c. nick (h1 c) = nick (h c) \<Longrightarrow> clients cr1 = clients cr \<Longrightarrow> uniqueNicks h cr \<Longrightarrow>
     uniqueNicks h1 cr1"
  by (simp add: uniqueNicks_def)

lemma distinct_map_upd:
  "distinct (map f cs) \<Longrightarrow> v \<notin> f ` set cs \<Longrightarrow>
     distinct (map (\<lambda>d. if d = c then v else f d) cs)"
proof (induction cs)
  case Nil
  then show ?case by simp
next
  case (Cons x xs)
  let ?g = "\<lambda>d. if d = c then v else f d"
  from Cons have IH: "distinct (map ?g xs)" by simp
  show ?case
  proof (cases "x = c")
    case True
    with Cons.prems have "c \<notin> set xs" by auto
    then have e: "map ?g xs = map f xs" by (simp add: map_eq_conv)
    have "?g c \<notin> set (map f xs)" "distinct (map f xs)"
      using Cons.prems by auto
    then show ?thesis unfolding True list.map distinct.simps e by blast
  next
    case False
    with Cons.prems have "?g x \<notin> ?g ` set xs" by auto
    with IH show ?thesis by simp
  qed
qed

lemma uniqueNicks_rename:
  assumes "uniqueNicks h cr" and "\<not> nickInUse h cr v"
  shows "uniqueNicks (h(a := (h a)\<lparr>nick := v\<rparr>)) cr"
proof -
  have "(\<lambda>c. nick ((h(a := (h a)\<lparr>nick := v\<rparr>)) c))
      = (\<lambda>d. if d = a then v else nick (h d))"
    by auto
  moreover have "distinct (map (\<lambda>d. if d = a then v else nick (h d)) (clients cr))"
    using assms by (intro distinct_map_upd) (simp_all add: uniqueNicks_def nickInUse_iff)
  ultimately show ?thesis by (simp add: uniqueNicks_def)
qed

lemma getNewNickLoop_not_in_use: "\<not> nickInUse h cr (getNewNickLoop h cr og og 2)"
proof (cases "nickInUse h cr og")
  case False
  then show ?thesis by (simp add: getNewNickLoop_free)
next
  case True
  from getNewNickLoop_taken [OF True] show ?thesis by auto
qed

lemma getNewNick_not_in_use:
  "getNewNick L D r1 r2 h cr = Inr v \<Longrightarrow> \<not> nickInUse h cr v"
  by (auto simp: getNewNick_def getNewNickLoop_not_in_use split: sum.splits)

lemma sendIncoming_clients:
  "sendIncoming m cr = Inr cr1 \<Longrightarrow> clients cr1 = clients cr"
  by (auto simp: sendIncoming_def split: if_splits)

lemma chatRoom_addClient_unique:
  assumes "chatRoom_addClient L D r1 r2 now h cr c = Inr (h1, cr1)" and "uniqueNicks h cr"
  shows "uniqueNicks h1 cr1"
proof -
  from assms(1) obtain v cr2 where v: "getNewNick L D r1 r2 h cr = Inr v"
    and h1: "h1 = h(c := (h c)\<lparr>nick := v\<rparr>)"
    and s: "sendIncoming (createJoinMsg L now (h1 c) (nicks h1 (cr\<lparr>clients := List.insert c (clients cr)\<rparr>)))
              (cr\<lparr>clients := List.insert c (clients cr)\<rparr>) = Inr cr1"
    by (auto simp: chatRoom_addClient_def Let_def split: sum.splits)
  have free: "\<not> nickInUse h cr v" using v by (rule getNewNick_not_in_use)
  have c1: "clients cr1 = List.insert c (clients cr)"
    using sendIncoming_clients [OF s] by simp
  have u: "uniqueNicks h1 cr" unfolding h1 using assms(2) free by (rule uniqueNicks_rename)
  show ?thesis
  proof (cases "c \<in> set (clients cr)")
    case True
    then have "clients cr1 = clients cr" using c1 by simp
    with u show ?thesis by (simp add: uniqueNicks_def)
  next
    case False
    have "nick (h1 c) = v" by (simp add: h1)
    moreover have "v \<notin> (\<lambda>d. nick (h1 d)) ` set (clients cr)"
      using free False by (auto simp: nickInUse_iff h1 split: if_splits)
    ultimately show ?thesis
      using u False c1 by (simp add: uniqueNicks_def)
  qed
qed

lemma chatRoom_removeClient_unique:
  assumes "chatRoom_removeClient L now h cr c = Inr cr1" and "uniqueNicks h cr"
  shows "uniqueNicks h cr1"
proof -
  have "clients cr1 = removeAll c (clients cr)"
    using assms(1) sendIncoming_clients
    by (fastforce simp: chatRoom_removeClient_def Let_def split: if_splits)
  then show ?thesis
    using assms(2) by (simp add: uniqueNicks_def removeAll_filter_not_eq distinct_map_filter)
qed

lemma handleMsg_unique:
  assumes "handleMsg L now h cr m = Inr (h1, cr1, a, b)" and "uniqueNicks h cr"
  shows "uniqueNicks h1 cr1"
proof -
  have c: "clients cr1 = clients cr"
    using handleMsg_room [OF assms(1)] by (simp split: if_splits)
  show ?thesis
  proof (cases "msg_raw m = [] \<and> nickCommand (msg_text m)")
    case False
    then have "h1 = h"
      using assms(1) by (cases "msg_raw m = []") (auto simp: handleMsg_raw handleMsg_chat)
    with c assms(2) show ?thesis by (simp add: uniqueNicks_def)
  next
    case True
    then obtain x where x: "msg_author m = Some x"
      using assms(1) by (cases "msg_author m") (simp_all add: handleMsg_nil_author)
    show ?thesis
    proof (cases "askedNick L m = [] \<or> nickInUse h cr (askedNick L m)")
      case refused: True
      from handleMsg_refused [OF _ _ x refused, of now] True assms(1)
      have "\<forall>d. nick (h1 d) = nick (h d)" by auto
      then show ?thesis using c assms(2) by (rule uniqueNicks_cong)
    next
      case False
      then have "h1 = h(x := (h x)\<lparr>nick := askedNick L m\<rparr>)"
        using handleMsg_rename [OF _ _ x, of L h cr now] True assms(1) by simp
      moreover have "uniqueNicks (h(x := (h x)\<lparr>nick := askedNick L m\<rparr>)) cr"
        using assms(2) False by (intro uniqueNicks_rename) simp_all
      ultimately show ?thesis using c by (simp add: uniqueNicks_def)
    qed
  qed
qed

lemma startIter_unique:
  assumes "startIter L now h cr m = Inr (h1, cr1)" and "uniqueNicks h cr"
  shows "uniqueNicks h1 cr1"
proof -
  from assms(1) obtain h2 a b where hm: "handleMsg L now h cr m = Inr (h2, cr1, a, b)"
    and h1: "h1 = h2 \<or> h1 = broadcast m a b (clients cr1) h2"
    by (auto simp: startIter_def split: sum.splits if_splits)
  from h1 have "\<forall>c. nick (h1 c) = nick (h2 c)" by auto
  then show ?thesis
    using refl handleMsg_unique [OF hm assms(2)] by (rule uniqueNicks_cong)
qed

lemma roomStep_unique:
  assumes "roomStep L D x (h, cr) = Inr (h1, cr1)" and "uniqueNicks h cr"
  shows "uniqueNicks h1 cr1"
proof (cases x)
  case (AddClient c r1 r2 now)
  with assms show ?thesis by (auto intro: chatRoom_addClient_unique)
next
  case (RemoveClient c now)
  with assms show ?thesis
    by (auto split: sum.splits intro: chatRoom_removeClient_unique)
next
  case (Submit m)
  with assms show ?thesis
    by (auto split: sum.splits dest!: sendIncoming_clients simp: uniqueNicks_def)
next
  case (Turn now)
  with assms(1) obtain m ms where i: "incoming cr = m # ms"
    and s: "startIter L now h (cr\<lparr>incoming := ms\<rparr>) m = Inr (h1, cr1)"
    by (auto simp: startTurn_def split: list.splits)
  have "uniqueNicks h (cr\<lparr>incoming := ms\<rparr>)"
    using assms(2) by (simp add: uniqueNicks_def)
  with s show ?thesis by (rule startIter_unique)
next
  case (Deliver c)
  with assms(1) have "\<forall>d. nick (h1 d) = nick (h d)" "clients cr1 = clients cr"
    by (auto split: list.splits)
  then show ?thesis using assms(2) by (rule uniqueNicks_cong)
qed

lemma roomRun_unique:
  "roomRun L D xs s = Inr s1 \<Longrightarrow> uniqueNicks (fst s) (snd s) \<Longrightarrow>
     uniqueNicks (fst s1) (snd s1)"
proof (induction xs arbitrary: s)
  case Nil
  then show ?case by simp
next
  case (Cons x xs)
  from Cons.prems(1) obtain s2 where s2: "roomStep L D x s = Inr s2"
    and r: "roomRun L D xs s2 = Inr s1"
    by (auto split: sum.splits)
  from s2 Cons.prems(2) have "uniqueNicks (fst s2) (snd s2)"
    using roomStep_unique [of L D x "fst s" "snd s" "fst s2" "snd s2"] by simp
  with Cons.IH [OF r] show ?case .
qed

text \<open>
  Claim C1. From a new room, after any sequence of admissions, removals, messages
  sent to the room, turns of its goroutine and deliveries that runs to its end, no
  two members of the room hold the same nickname: the list of the members has no
  client twice, and two different members have different names (compared as byte
  strings). The name \<open>getNewNick\<close> allocates is not in use, and a rename command
  whose name is in use leaves every nickname as it was.
\<close>

theorem nicknames_unique_in_room:
  assumes "roomRun L D xs (h, newChatRoom) = Inr (h1, cr1)"
  shows "uniqueNicks h1 cr1
         \<and> distinct (clients cr1)
         \<and> (\<forall>c \<in> set (clients cr1). \<forall>d \<in> set (clients cr1).
               c \<noteq> d \<longrightarrow> nick (h1 c) \<noteq> nick (h1 d))
         \<and> (\<forall>r1 r2 v. getNewNick L D r1 r2 h1 cr1 = Inr v \<longrightarrow> \<not> nickInUse h1 cr1 v)
         \<and> (\<forall>m now a h2 cr2 s t.
               msg_raw m = [] \<and> nickCommand (msg_text m) \<and> msg_author m = Some a
               \<and> nickInUse h1 cr1 (askedNick L m)
               \<and> handleMsg L now h1 cr1 m = Inr (h2, cr2, s, t)
               \<longrightarrow> cr2 = cr1 \<and> (\<forall>c. nick (h2 c) = nick (h1 c)))"
proof -
  have "uniqueNicks h newChatRoom"
    by (simp add: uniqueNicks_def newChatRoom_def)
  with roomRun_unique [OF assms] have u: "uniqueNicks h1 cr1" by simp
  have g: "\<forall>r1 r2 v. getNewNick L D r1 r2 h1 cr1 = Inr v \<longrightarrow> \<not> nickInUse h1 cr1 v"
    by (auto dest: getNewNick_not_in_use)
  have r: "cr2 = cr1 \<and> (\<forall>c. nick (h2 c) = nick (h1 c))"
    if "msg_raw m = []" "nickCommand (msg_text m)" "msg_author m = Some a"
      "nickInUse h1 cr1 (askedNick L m)" "handleMsg L now h1 cr1 m = Inr (h2, cr2, s, t)"
    for m now a h2 cr2 s t
    using handleMsg_refused [OF that(1-3), of L h1 cr1 now] that(4,5) by auto
  from u have "distinct (clients cr1)
      \<and> (\<forall>c \<in> set (clients cr1). \<forall>d \<in> set (clients cr1).
            c \<noteq> d \<longrightarrow> nick (h1 c) \<noteq> nick (h1 d))"
    by (simp add: uniqueNicks_iff)
  with u g r show ?thesis by blast
qed

text \<open>Two clients are admitted with the same two numbers drawn, the first asks for
  the name of the second, and the goroutine of the room handles the three messages:
  the names are \<open>HappyLynx\<close> and \<open>HappyLynx2\<close>.\<close>

theorem nicknames_unique_in_room_witness:
  "\<exists>h1 cr1. roomRun testLib testData twoJoinOneRename (newClients, newChatRoom) = Inr (h1, cr1)
      \<and> clients cr1 = [2, 1] \<and> nick (h1 1) = ''HappyLynx'' \<and> nick (h1 2) = ''HappyLynx2''
      \<and> uniqueNicks h1 cr1"
proof -
  have e: "(case roomRun testLib testData twoJoinOneRename (newClients, newChatRoom) of
              Inl e \<Rightarrow> None
            | Inr (h1, cr1) \<Rightarrow> Some (clients cr1, nick (h1 1), nick (h1 2)))
           = Some ([2, 1], ''HappyLynx'', ''HappyLynx2'')"
    by code_simp
  then obtain h1 cr1 where
    r: "roomRun testLib testData twoJoinOneRename (newClients, newChatRoom) = Inr (h1, cr1)"
    and v: "clients cr1 = [2, 1]" "nick (h1 1) = ''HappyLynx''" "nick (h1 2) = ''HappyLynx2''"
    by (auto split: sum.splits)
  from nicknames_unique_in_room [OF r] have "uniqueNicks h1 cr1" by blast
  with r v show ?thesis by blast
qed

section \<open>A room without members is removed\<close>

lemma map_of_delete_other: "k \<noteq> ip \<Longrightarrow> map_of (AList.delete ip al) k = map_of al k"
  by (simp add: delete_conv)

lemma chatServer_removeClient_result:
  assumes "map_of (rooms w) ip = Some room"
    and "chatServer_removeClient L now w ip c = Inr w1"
  shows "\<exists>cr1. chatRoom_removeClient L now (clientStore w) (roomStore w room) c = Inr cr1
           \<and> w1 = (if numClients cr1 = 0
                   then w\<lparr>rooms := AList.delete ip (rooms w),
                          roomStore := (roomStore w)(room := cr1\<lparr>quit := quit cr1 + 1\<rparr>)\<rparr>
                   else w\<lparr>roomStore := (roomStore w)(room := cr1)\<rparr>)"
proof -
  from assms obtain cr1 where
    c: "chatRoom_removeClient L now (clientStore w) (roomStore w room) c = Inr cr1"
    by (cases "chatRoom_removeClient L now (clientStore w) (roomStore w room) c")
       (simp_all add: chatServer_removeClient_def)
  show ?thesis
    using assms c by (simp add: chatServer_removeClient_def Let_def split: if_splits)
qed

lemma chatRoom_removeClient_quit:
  "chatRoom_removeClient L now h cr c = Inr cr1 \<Longrightarrow> quit cr1 = quit cr"
  by (auto simp: chatRoom_removeClient_def sendIncoming_def Let_def split: if_splits)

lemma chatRoom_removeClient_last:
  "set (clients cr) \<subseteq> {c} \<Longrightarrow>
     chatRoom_removeClient L now h cr c = Inr (cr\<lparr>clients := []\<rparr>)"
proof -
  assume "set (clients cr) \<subseteq> {c}"
  then have "removeAll c (clients cr) = []"
    by (induction "clients cr" arbitrary: cr) (auto simp: removeAll_filter_not_eq filter_empty_conv)
  then show ?thesis by (simp add: chatRoom_removeClient_def)
qed

lemma chatServer_removeClient_last:
  assumes "map_of (rooms w) ip = Some room" and "set (clients (roomStore w room)) \<subseteq> {c}"
  shows "chatServer_removeClient L now w ip c =
           Inr (w\<lparr>rooms := AList.delete ip (rooms w),
                  roomStore := (roomStore w)
                    (room := (roomStore w room)\<lparr>clients := [],
                               quit := quit (roomStore w room) + 1\<rparr>)\<rparr>)"
  using assms(1) chatRoom_removeClient_last [OF assms(2), of L now "clientStore w"]
  by (simp add: chatServer_removeClient_def numClients_def)

text \<open>
  Claim C2. A call of \<open>chatServer.removeClient\<close> for a key that has a room, after
  which that room has no members: the key is deleted from the map \<open>rooms\<close>, a value
  is sent on the channel \<open>quit\<close> of the room, and the other keys keep their rooms.
  Right after the call the map has no entry for the key, so the entries the admin
  data handler goes through do not hold it. When the client removed is the only
  member, the call returns (it sends nothing on \<open>incoming\<close>).
\<close>

theorem empty_room_removed:
  assumes "map_of (rooms w) ip = Some room"
    and "chatServer_removeClient L now w ip c = Inr w1"
    and "numClients (roomStore w1 room) = 0"
  shows "map_of (rooms w1) ip = None
         \<and> ip \<notin> fst ` set (rooms w1)
         \<and> ip \<notin> fst ` set (adminRows w1)
         \<and> quit (roomStore w1 room) = quit (roomStore w room) + 1
         \<and> (\<forall>k. k \<noteq> ip \<longrightarrow> map_of (rooms w1) k = map_of (rooms w) k)
         \<and> (set (clients (roomStore w room)) \<subseteq> {c} \<longrightarrow>
              (\<forall>L2 now2. \<exists>w2. chatServer_removeClient L2 now2 w ip c = Inr w2))"
proof -
  from chatServer_removeClient_result [OF assms(1,2)] obtain cr1 where
    c: "chatRoom_removeClient L now (clientStore w) (roomStore w room) c = Inr cr1"
    and w1: "w1 = (if numClients cr1 = 0
                   then w\<lparr>rooms := AList.delete ip (rooms w),
                          roomStore := (roomStore w)(room := cr1\<lparr>quit := quit cr1 + 1\<rparr>)\<rparr>
                   else w\<lparr>roomStore := (roomStore w)(room := cr1)\<rparr>)"
    by blast
  have z: "numClients cr1 = 0"
  proof (rule ccontr)
    assume "numClients cr1 \<noteq> 0"
    with w1 have "roomStore w1 room = cr1" by simp
    with assms(3) \<open>numClients cr1 \<noteq> 0\<close> show False by simp
  qed
  with w1 have w1': "w1 = w\<lparr>rooms := AList.delete ip (rooms w),
      roomStore := (roomStore w)(room := cr1\<lparr>quit := quit cr1 + 1\<rparr>)\<rparr>"
    by simp
  have 1: "map_of (rooms w1) ip = None"
    by (simp add: w1' delete_conv)
  then have 2: "ip \<notin> fst ` set (rooms w1)"
    by (simp add: map_of_eq_None_iff)
  have "fst ` set (adminRows w1) = fst ` set (rooms w1)"
    by (force simp: adminRows_def)
  with 2 have 3: "ip \<notin> fst ` set (adminRows w1)" by simp
  have 4: "quit (roomStore w1 room) = quit (roomStore w room) + 1"
    using chatRoom_removeClient_quit [OF c] by (simp add: w1')
  have 5: "\<forall>k. k \<noteq> ip \<longrightarrow> map_of (rooms w1) k = map_of (rooms w) k"
    by (simp add: w1' map_of_delete_other)
  have 6: "set (clients (roomStore w room)) \<subseteq> {c} \<longrightarrow>
      (\<forall>L2 now2. \<exists>w2. chatServer_removeClient L2 now2 w ip c = Inr w2)"
    using chatServer_removeClient_last [OF assms(1)] by blast
  show ?thesis
    using 1 2 3 4 5 6 by blast
qed

text \<open>A client joins as the first of the key \<open>1.2.3.4\<close> and leaves: the map of the
  server is empty again, and the room has been told to stop.\<close>

theorem empty_room_removed_witness:
  "\<exists>w r w1. chatServer_addClient testLib testData 0 1 5 newChatServer ''1.2.3.4'' 1 = Inr (w, r)
      \<and> map_of (rooms w) ''1.2.3.4'' = Some r
      \<and> adminRows w = [(''1.2.3.4'', 1, zeroTime)]
      \<and> chatServer_removeClient testLib 6 w ''1.2.3.4'' 1 = Inr w1
      \<and> numClients (roomStore w1 r) = 0
      \<and> map_of (rooms w1) ''1.2.3.4'' = None
      \<and> adminRows w1 = []
      \<and> quit (roomStore w1 r) = 1"
proof -
  have e: "(case chatServer_addClient testLib testData 0 1 5 newChatServer ''1.2.3.4'' 1 of
              Inl e \<Rightarrow> None
            | Inr (w, r) \<Rightarrow>
                Some (r, rooms w, clients (roomStore w r), quit (roomStore w r),
                      whenLastMsg (roomStore w r)))
           = Some (0, [(''1.2.3.4'', 0)], [1], 0, zeroTime)"
    by code_simp
  then obtain w r where
    a: "chatServer_addClient testLib testData 0 1 5 newChatServer ''1.2.3.4'' 1 = Inr (w, r)"
    and v: "r = 0" "rooms w = [(''1.2.3.4'', 0)]" "clients (roomStore w r) = [1]"
      "quit (roomStore w r) = 0" "whenLastMsg (roomStore w r) = zeroTime"
    by (auto split: sum.splits)
  have m: "map_of (rooms w) ''1.2.3.4'' = Some r"
    by (simp add: v(1,2))
  have s: "set (clients (roomStore w r)) \<subseteq> {1}"
    by (simp add: v(3))
  have rows: "adminRows w = [(''1.2.3.4'', 1, zeroTime)]"
    using v(3,5) by (simp add: adminRows_def numClients_def v(1,2))
  define w1 where "w1 = w\<lparr>rooms := AList.delete ''1.2.3.4'' (rooms w),
      roomStore := (roomStore w)
        (r := (roomStore w r)\<lparr>clients := [], quit := quit (roomStore w r) + 1\<rparr>)\<rparr>"
  have rm: "chatServer_removeClient testLib 6 w ''1.2.3.4'' 1 = Inr w1"
    unfolding w1_def using m s by (rule chatServer_removeClient_last)
  have n: "numClients (roomStore w1 r) = 0"
    by (simp add: w1_def numClients_def)
  have rows1: "adminRows w1 = []"
    by (simp add: w1_def adminRows_def v(2))
  from empty_room_removed [OF m rm n]
  have "map_of (rooms w1) ''1.2.3.4'' = None" "quit (roomStore w1 r) = quit (roomStore w r) + 1"
    by blast+
  with a m rows rm n rows1 v(4) show ?thesis by auto
qed

end
